theory Spec2Isabelle
  imports Complex_Main "HOL-Library.AList" "HOL-Library.Multiset"
begin

section \<open>Basic domain types (types.py, config.py)\<close>

text \<open>
  A finite Python float is a real number, and the special values \<open>inf\<close>, \<open>-inf\<close> and
  \<open>nan\<close> are kept where the code can produce them (\<open>pyfloat\<close>). Coordinates and
  configuration constants are finite. The operations \<open>fadd\<close>, \<open>fscale\<close> and \<open>frecip\<close>
  of the geometry and scoring formulas compute over the reals; the float operations whose
  binary64 rounding matters are given in the next section.
  A Python \<open>dict\<close> is an association list in insertion order; \<open>d[k] = v\<close> is
  \<open>AList.update k v d\<close> (overwrite in place, or append a new key at the end),
  \<open>k in d\<close> is \<open>map_of d k \<noteq> None\<close>, \<open>d.keys()\<close> is \<open>map fst d\<close>, and a read
  \<open>d[k]\<close> of a missing key is a \<open>KeyError\<close>.
\<close>

type_synonym vec2 = "real \<times> real"

type_synonym ('k, 'v) dict = "('k \<times> 'v) list"

datatype error = ValueError string | ZeroDivisionError | KeyError string | IndexError

definition lookup :: "(string, 'v) dict \<Rightarrow> string \<Rightarrow> error + 'v" where
  "lookup d k = (case map_of d k of None \<Rightarrow> Inl (KeyError k) | Some v \<Rightarrow> Inr v)"

definition get_default :: "('k, 'v) dict \<Rightarrow> 'k \<Rightarrow> 'v \<Rightarrow> 'v" where
  "get_default d k dflt = (case map_of d k of None \<Rightarrow> dflt | Some v \<Rightarrow> v)"

datatype pyfloat = Fin real | PInf | NInf | NaN

text \<open>The comparison \<open>a < b\<close> on floats: false whenever a \<open>nan\<close> is involved.\<close>

fun flt :: "pyfloat \<Rightarrow> pyfloat \<Rightarrow> bool" where
  "flt (Fin a) (Fin b) = (a < b)"
| "flt (Fin a) PInf = True"
| "flt NInf (Fin b) = True"
| "flt NInf PInf = True"
| "flt _ _ = False"

fun fadd :: "pyfloat \<Rightarrow> pyfloat \<Rightarrow> pyfloat" where
  "fadd (Fin a) (Fin b) = Fin (a + b)"
| "fadd NaN _ = NaN"
| "fadd _ NaN = NaN"
| "fadd PInf NInf = NaN"
| "fadd NInf PInf = NaN"
| "fadd PInf _ = PInf"
| "fadd _ PInf = PInf"
| "fadd NInf _ = NInf"
| "fadd _ NInf = NInf"

fun fneg :: "pyfloat \<Rightarrow> pyfloat" where
  "fneg (Fin a) = Fin (- a)"
| "fneg PInf = NInf"
| "fneg NInf = PInf"
| "fneg NaN = NaN"

definition fsub :: "pyfloat \<Rightarrow> pyfloat \<Rightarrow> pyfloat" where
  "fsub a b = fadd a (fneg b)"

text \<open>Multiplication of a finite float with any float (\<open>w * v\<close> with \<open>w\<close> a weight).\<close>

fun fscale :: "real \<Rightarrow> pyfloat \<Rightarrow> pyfloat" where
  "fscale w (Fin b) = Fin (w * b)"
| "fscale w PInf = (if 0 < w then PInf else if w < 0 then NInf else NaN)"
| "fscale w NInf = (if 0 < w then NInf else if w < 0 then PInf else NaN)"
| "fscale w NaN = NaN"

text \<open>
  Python's builtins \<open>min(a, b)\<close> and \<open>max(a, b)\<close>: the first argument is kept unless the
  second is strictly smaller (larger).
\<close>

definition pymin :: "pyfloat \<Rightarrow> pyfloat \<Rightarrow> pyfloat" where
  "pymin a b = (if flt b a then b else a)"

definition pymax :: "pyfloat \<Rightarrow> pyfloat \<Rightarrow> pyfloat" where
  "pymax a b = (if flt a b then b else a)"

text \<open>
  \<open>1.0 / m\<close>. At both call sites \<open>m\<close> is \<open>max(d, 0.5)\<close> or \<open>max(d, 1.0)\<close>, so a finite
  \<open>m\<close> is never zero and no \<open>ZeroDivisionError\<close> can arise there.
\<close>

fun frecip :: "pyfloat \<Rightarrow> pyfloat" where
  "frecip (Fin m) = Fin (1 / m)"
| "frecip PInf = Fin 0"
| "frecip NInf = Fin 0"
| "frecip NaN = NaN"

record pitch =
  pitch_length :: real
  pitch_width :: real

record player_meta =
  pm_id :: string
  pm_team :: string
  pm_label :: string
  pm_role :: string

record tactic_meta =
  tactic_id :: string
  title :: string
  meta_pitch :: pitch
  meta_players :: "(string, player_meta) dict"

record raw_ball =
  ball_x :: "real option"
  ball_y :: "real option"
  owner_id :: "string option"

record raw_frame =
  rf_id :: string
  player_pos :: "(string, vec2) dict"
  ball :: raw_ball
  rf_note :: string

record frame =
  frame_idx :: nat
  players :: "(string, vec2) dict"
  ball_pos :: vec2
  ball_owner_id :: "string option"
  fr_note :: string

datatype edge_type = TEAM_NEAR | OPP_NEAR | BALL_LINK

record graph_node =
  n_player_id :: string
  n_team :: string
  n_role :: string
  n_pos :: vec2
  n_vel :: vec2

record graph_edge =
  src :: string
  dst :: string
  etype :: edge_type
  e_features :: "(string, real) dict"

record frame_graph =
  g_frame_idx :: nat
  nodes :: "(string, graph_node) dict"
  edges :: "graph_edge list"
  g_ball_pos :: vec2
  g_t_rel :: real

datatype focus_target_type = BALL | PLAYER | ZONE | GOAL

record focus_target =
  target_type :: focus_target_type
  anchor :: vec2
  target_player_id :: "string option"
  tag :: "string option"

record candidate_event =
  c_name :: string
  c_focus :: focus_target
  c_features :: "(string, pyfloat) dict"
  c_meta :: "(string, string) dict"

record scored_event =
  name :: string
  score :: pyfloat
  focus :: focus_target
  reasons :: "string list"
  meta :: "(string, string) dict"

record recommendation =
  r_player_id :: string
  r_frame_idx :: nat
  r_t_rel :: real
  primary :: focus_target
  primary_score :: pyfloat
  rationale :: "string list"
  r_top_k :: "scored_event list"

record algo_config =
  top_k :: int
  attacking_team :: string
  attack_direction :: int
  max_player_speed :: real
  min_dt :: real
  teammate_radius :: real
  opponent_radius :: real
  enable_ball_focus :: bool
  enable_pass_targets :: bool
  enable_marking_threats :: bool
  enable_space_targets :: bool
  enable_goal_focus :: bool
  space_grid_dx :: real
  space_grid_dy :: real
  min_space_clearance :: real
  w_ball_distance :: real
  w_ball_motion :: real
  w_pass_likelihood :: real
  w_opponent_pressure :: real
  w_teammate_support :: real
  w_space_value :: real
  w_goal_proximity :: real
  w_role_prior :: real
  switch_penalty :: real
  persistence_bonus :: real
  clamp_scores :: bool
  score_min :: real
  score_max :: real

text \<open>The documented defaults of \<open>AlgoConfig\<close>.\<close>

definition default_config :: algo_config where
  "default_config =
     \<lparr>top_k = 1, attacking_team = ''A'', attack_direction = 1,
      max_player_speed = 8, min_dt = 2 / 10,
      teammate_radius = 12, opponent_radius = 10,
      enable_ball_focus = True, enable_pass_targets = True, enable_marking_threats = True,
      enable_space_targets = True, enable_goal_focus = True,
      space_grid_dx = 6, space_grid_dy = 6, min_space_clearance = 4,
      w_ball_distance = - 1, w_ball_motion = 15 / 10, w_pass_likelihood = 3,
      w_opponent_pressure = 2, w_teammate_support = 8 / 10,
      w_space_value = 12 / 10, w_goal_proximity = 25 / 10, w_role_prior = 1,
      switch_penalty = 15 / 10, persistence_bonus = 8 / 10,
      clamp_scores = True, score_min = - 10, score_max = 10\<rparr>"

section \<open>Binary64 rounding\<close>

text \<open>
  Python floats are IEEE 754 binary64 numbers. The geometry and the scoring formulas are
  modelled over the reals. Rounding is modelled where it decides a loop exit, a ranking
  or a printed digit: in the grid steps of the open-space search, in the score adjustment
  and the anchor test of the temporal smoother, and in the number formatting.
  \<open>round64 x\<close> is the binary64 number nearest to the real \<open>x\<close>, ties to even, and \<open>inf\<close>
  or \<open>-inf\<close> on overflow. Signed zeros are not distinguished.
\<close>

definition round_half_even :: "real \<Rightarrow> int" where
  "round_half_even v =
     (let f = \<lfloor>v\<rfloor>; r = v - of_int f
      in if r < 1 / 2 then f else if r > 1 / 2 then f + 1 else if even f then f else f + 1)"

text \<open>
  The exponent of the binade of \<open>x\<close> (that of the subnormal numbers below \<open>2^-1022\<close>),
  the spacing of the binary64 numbers there, and the nearest multiple of that spacing.
\<close>

definition binade :: "real \<Rightarrow> int" where
  "binade x = (if \<bar>x\<bar> < 2 powr (- 1022) then - 1022 else \<lfloor>log 2 \<bar>x\<bar>\<rfloor>)"

definition ulp :: "real \<Rightarrow> real" where
  "ulp x = 2 powr (of_int (binade x) - 52)"

definition rnd :: "real \<Rightarrow> real" where
  "rnd x = of_int (round_half_even (x / ulp x)) * ulp x"

definition round64 :: "real \<Rightarrow> pyfloat" where
  "round64 x =
     (if 2 ^ 1024 \<le> \<bar>rnd x\<bar> then (if 0 < x then PInf else NInf) else Fin (rnd x))"

text \<open>The float addition \<open>a + b\<close>, rounded.\<close>

fun fadd64 :: "pyfloat \<Rightarrow> pyfloat \<Rightarrow> pyfloat" where
  "fadd64 (Fin a) (Fin b) = round64 (a + b)"
| "fadd64 NaN _ = NaN"
| "fadd64 _ NaN = NaN"
| "fadd64 PInf NInf = NaN"
| "fadd64 NInf PInf = NaN"
| "fadd64 PInf _ = PInf"
| "fadd64 _ PInf = PInf"
| "fadd64 NInf _ = NInf"
| "fadd64 _ NInf = NInf"

section \<open>Frame canonicalization (core/canonicalize.py)\<close>

definition digit_char :: "nat \<Rightarrow> char" where
  "digit_char d = char_of (48 + d)"

text \<open>Python's \<open>str(n)\<close> for a non-negative integer, as used by the f-strings.\<close>

fun str_nat :: "nat \<Rightarrow> string" where
  "str_nat n = (if n < 10 then [digit_char n] else str_nat (n div 10) @ [digit_char (n mod 10)])"

declare str_nat.simps [simp del]

definition msg_no_frames :: string where
  "msg_no_frames = ''No frames provided.''"

definition msg_player_missing :: "string \<Rightarrow> nat \<Rightarrow> string" where
  "msg_player_missing pid idx =
     ''Player '' @ pid @ '' missing at frame '' @ str_nat idx @ '' and no previous position to fill.''"

definition msg_ball_missing :: "nat \<Rightarrow> string" where
  "msg_ball_missing idx =
     ''Ball position missing at frame '' @ str_nat idx @ '' and cannot be inferred.''"

text \<open>
  The inner loop \<open>for pid in valid_player_ids\<close> of \<open>canonicalize_frames\<close>: it builds the
  frame's \<open>players\<close> dict and updates \<open>last_positions\<close>, or raises.
\<close>

fun fill_players ::
  "string list \<Rightarrow> (string, vec2) dict \<Rightarrow> nat \<Rightarrow> (string, vec2) dict \<Rightarrow> (string, vec2) dict
     \<Rightarrow> error + ((string, vec2) dict \<times> (string, vec2) dict)" where
  "fill_players [] rpos idx plys last_positions = Inr (plys, last_positions)"
| "fill_players (pid # pids) rpos idx plys last_positions =
     (case map_of rpos pid of
        Some pos \<Rightarrow>
          fill_players pids rpos idx (AList.update pid pos plys) (AList.update pid pos last_positions)
      | None \<Rightarrow>
          (case map_of last_positions pid of
             None \<Rightarrow> Inl (ValueError (msg_player_missing pid idx))
           | Some p \<Rightarrow> fill_players pids rpos idx (AList.update pid p plys) last_positions))"

text \<open>
  The outer loop \<open>for idx, rf in enumerate(raw_frames)\<close>, carrying \<open>frames\<close>,
  \<open>last_positions\<close>, \<open>last_ball_pos\<close> and \<open>last_ball_owner\<close>.
\<close>

fun canon_loop ::
  "raw_frame list \<Rightarrow> nat \<Rightarrow> string list \<Rightarrow> frame list \<Rightarrow> (string, vec2) dict
     \<Rightarrow> vec2 option \<Rightarrow> string option \<Rightarrow> error + frame list" where
  "canon_loop [] idx valid_player_ids frames last_positions last_ball_pos last_ball_owner =
     Inr frames"
| "canon_loop (rf # rfs) idx valid_player_ids frames last_positions last_ball_pos last_ball_owner =
     (case fill_players valid_player_ids (player_pos rf) idx [] last_positions of
        Inl e \<Rightarrow> Inl e
      | Inr (plys, last_positions') \<Rightarrow>
          (case (ball_x (ball rf), ball_y (ball rf)) of
             (Some bx, Some by) \<Rightarrow>
               canon_loop rfs (idx + 1) valid_player_ids
                 (frames @ [\<lparr>frame_idx = idx, players = plys, ball_pos = (bx, by),
                             ball_owner_id = owner_id (ball rf), fr_note = rf_note rf\<rparr>])
                 last_positions' (Some (bx, by)) (owner_id (ball rf))
           | _ \<Rightarrow>
               (case last_ball_pos of
                  None \<Rightarrow> Inl (ValueError (msg_ball_missing idx))
                | Some b \<Rightarrow>
                    canon_loop rfs (idx + 1) valid_player_ids
                      (frames @ [\<lparr>frame_idx = idx, players = plys, ball_pos = b,
                                  ball_owner_id = last_ball_owner, fr_note = rf_note rf\<rparr>])
                      last_positions' last_ball_pos last_ball_owner)))"

definition canonicalize_frames :: "raw_frame list \<Rightarrow> error + (frame list \<times> string list)" where
  "canonicalize_frames raw_frames =
     (case raw_frames of
        [] \<Rightarrow> Inl (ValueError msg_no_frames)
      | frame0 # _ \<Rightarrow>
          (let valid_player_ids = map fst (player_pos frame0) in
           case canon_loop raw_frames 0 valid_player_ids [] [] None None of
             Inl e \<Rightarrow> Inl e
           | Inr frames \<Rightarrow> Inr (frames, valid_player_ids)))"

text \<open>The spec's description of a bad-shaped input, stated on the raw frames alone.\<close>

definition ball_missing :: "raw_frame \<Rightarrow> bool" where
  "ball_missing rf = (ball_x (ball rf) = None \<or> ball_y (ball rf) = None)"

definition player_unfillable :: "raw_frame list \<Rightarrow> bool" where
  "player_unfillable raw_frames =
     (case raw_frames of
        [] \<Rightarrow> False
      | frame0 # _ \<Rightarrow>
          list_ex (\<lambda>pid. list_ex (\<lambda>i. list_all (\<lambda>j. map_of (player_pos (raw_frames ! j)) pid = None)
                                                 [0..<Suc i])
                                   [0..<length raw_frames])
                  (map fst (player_pos frame0)))"

definition ball_unresolved :: "raw_frame list \<Rightarrow> bool" where
  "ball_unresolved raw_frames =
     list_ex (\<lambda>i. list_all (\<lambda>j. ball_missing (raw_frames ! j)) [0..<Suc i]) [0..<length raw_frames]"

definition bad_shape :: "raw_frame list \<Rightarrow> bool" where
  "bad_shape raw_frames =
     (raw_frames = [] \<or> player_unfillable raw_frames \<or> ball_unresolved raw_frames)"

section \<open>Geometry (core/geometry.py)\<close>

definition dist_vec :: "vec2 \<Rightarrow> vec2 \<Rightarrow> real" where
  "dist_vec a b = (let dx = fst a - fst b; dy = snd a - snd b in sqrt (dx * dx + dy * dy))"

definition norm_vec :: "vec2 \<Rightarrow> real" where
  "norm_vec v = sqrt (fst v * fst v + snd v * snd v)"

definition sub_vec :: "vec2 \<Rightarrow> vec2 \<Rightarrow> vec2" where
  "sub_vec a b = (fst a - fst b, snd a - snd b)"

definition dot_vec :: "vec2 \<Rightarrow> vec2 \<Rightarrow> real" where
  "dot_vec a b = fst a * fst b + snd a * snd b"

definition unit_vec :: "vec2 \<Rightarrow> vec2" where
  "unit_vec v = (let n = norm_vec v in if n < 1 / 10 ^ 6 then (0, 0) else (fst v / n, snd v / n))"

definition attacking_goal_center :: "pitch \<Rightarrow> int \<Rightarrow> vec2" where
  "attacking_goal_center p attack_dir =
     (let gx = (if attack_dir > 0 then pitch_length p else 0); gy = pitch_width p * (1 / 2)
      in (gx, gy))"

definition is_ahead :: "vec2 \<Rightarrow> vec2 \<Rightarrow> int \<Rightarrow> bool" where
  "is_ahead a b attack_dir = ((fst a - fst b) * of_int attack_dir > 0)"

definition in_forward_cone :: "vec2 \<Rightarrow> vec2 \<Rightarrow> int \<Rightarrow> real \<Rightarrow> bool" where
  "in_forward_cone origin target attack_dir cos_threshold =
     (let forward = (of_int attack_dir, 0);
          v = sub_vec target origin;
          v_hat = unit_vec v
      in dot_vec v_hat forward \<ge> cos_threshold)"

section \<open>Pseudo-time and velocities (core/timebase.py)\<close>

text \<open>
  The inner loop of \<open>infer_pseudotime\<close> over \<open>cur.players.items()\<close>: the largest
  displacement, reading the previous position with \<open>prev.players[pid]\<close>.
\<close>

fun max_displacement ::
  "(string, vec2) dict \<Rightarrow> (string, vec2) dict \<Rightarrow> real \<Rightarrow> error + real" where
  "max_displacement [] prev dmax = Inr dmax"
| "max_displacement ((pid, (x, y)) # rest) prev dmax =
     (case lookup prev pid of
        Inl e \<Rightarrow> Inl e
      | Inr (x0, y0) \<Rightarrow>
          (let dx = x - x0; dy = y - y0; d = sqrt (dx * dx + dy * dy)
           in max_displacement rest prev (if d > dmax then d else dmax)))"

text \<open>
  The loop \<open>for i in range(1, n)\<close>, walking the consecutive frames; it returns the
  entries \<open>dt[1:]\<close> and \<open>t[1:]\<close>.
\<close>

fun pseudotime_loop ::
  "algo_config \<Rightarrow> frame \<Rightarrow> frame list \<Rightarrow> real \<Rightarrow> error + (real list \<times> real list)" where
  "pseudotime_loop cfg prev [] t_prev = Inr ([], [])"
| "pseudotime_loop cfg prev (cur # rest) t_prev =
     (case max_displacement (players cur) (players prev) 0 of
        Inl e \<Rightarrow> Inl e
      | Inr dmax \<Rightarrow>
          (let raw_dt = dmax / max (max_player_speed cfg) (1 / 10 ^ 6);
               dt_i = max (min_dt cfg) raw_dt;
               t_i = t_prev + dt_i
           in case pseudotime_loop cfg cur rest t_i of
                Inl e \<Rightarrow> Inl e
              | Inr (dts, ts) \<Rightarrow> Inr (dt_i # dts, t_i # ts)))"

definition infer_pseudotime :: "frame list \<Rightarrow> algo_config \<Rightarrow> error + (real list \<times> real list)" where
  "infer_pseudotime frames cfg =
     (case frames of
        [] \<Rightarrow> Inl (ValueError ''No frames provided.'')
      | f0 # rest \<Rightarrow>
          (case pseudotime_loop cfg f0 rest 0 of
             Inl e \<Rightarrow> Inl e
           | Inr (dts, ts) \<Rightarrow> Inr (0 # dts, 0 # ts)))"

text \<open>The velocities of one frame: the loop over \<open>cur.players.items()\<close>.\<close>

fun frame_velocities ::
  "(string, vec2) dict \<Rightarrow> (string, vec2) dict \<Rightarrow> real \<Rightarrow> (string, vec2) dict
     \<Rightarrow> error + (string, vec2) dict" where
  "frame_velocities [] prev denom v_i = Inr v_i"
| "frame_velocities ((pid, (x, y)) # rest) prev denom v_i =
     (case lookup prev pid of
        Inl e \<Rightarrow> Inl e
      | Inr (x0, y0) \<Rightarrow>
          frame_velocities rest prev denom
            (AList.update pid ((x - x0) / denom, (y - y0) / denom) v_i))"

fun velocities_loop ::
  "frame \<Rightarrow> frame list \<Rightarrow> real list \<Rightarrow> nat \<Rightarrow> (nat, (string, vec2) dict) dict
     \<Rightarrow> error + (nat, (string, vec2) dict) dict" where
  "velocities_loop prev [] dts i v_by_frame = Inr v_by_frame"
| "velocities_loop prev (cur # rest) [] i v_by_frame = Inl IndexError"
| "velocities_loop prev (cur # rest) (dt_i # dts) i v_by_frame =
     (let denom = max dt_i (1 / 10 ^ 6) in
      case frame_velocities (players cur) (players prev) denom [] of
        Inl e \<Rightarrow> Inl e
      | Inr v_i \<Rightarrow> velocities_loop cur rest dts (i + 1) (AList.update i v_i v_by_frame))"

definition compute_velocities ::
  "frame list \<Rightarrow> real list \<Rightarrow> error + (nat, (string, vec2) dict) dict" where
  "compute_velocities frames dt =
     (if length frames \<noteq> length dt
      then Inl (ValueError ''frames and dt must have same length.'')
      else case frames of
        [] \<Rightarrow> Inl IndexError
      | f0 # rest \<Rightarrow>
          velocities_loop f0 rest (tl dt) 1
            [(0, map (\<lambda>pid. (pid, (0, 0))) (map fst (players f0)))])"

section \<open>Proximity graph and summaries (baseline/graph.py)\<close>

text \<open>\<open>player_team.get(pid, "A")\<close> and \<open>player_role.get(pid, "")\<close>.\<close>

definition team_of :: "(string, string) dict \<Rightarrow> string \<Rightarrow> string" where
  "team_of player_team pid = get_default player_team pid ''A''"

definition role_of :: "(string, string) dict \<Rightarrow> string \<Rightarrow> string" where
  "role_of player_role pid = get_default player_role pid []"

text \<open>The node loop of \<open>build_frame_graphs\<close>, reading \<open>v_by_frame[i][pid]\<close>.\<close>

fun build_nodes ::
  "(string, vec2) dict \<Rightarrow> (string, vec2) dict \<Rightarrow> (string, string) dict \<Rightarrow> (string, string) dict
     \<Rightarrow> (string, graph_node) dict \<Rightarrow> error + (string, graph_node) dict" where
  "build_nodes [] v_i player_team player_role nds = Inr nds"
| "build_nodes ((pid, p) # rest) v_i player_team player_role nds =
     (case lookup v_i pid of
        Inl e \<Rightarrow> Inl e
      | Inr vel \<Rightarrow>
          build_nodes rest v_i player_team player_role
            (AList.update pid
               \<lparr>n_player_id = pid, n_team = team_of player_team pid,
                n_role = role_of player_role pid, n_pos = p, n_vel = vel\<rparr> nds))"

text \<open>The body of the pairwise loop for the ordered pair of entries \<open>a\<close>, \<open>b\<close>.\<close>

definition pair_edges ::
  "algo_config \<Rightarrow> (string, string) dict \<Rightarrow> (string \<times> vec2) \<Rightarrow> (string \<times> vec2) \<Rightarrow> graph_edge list" where
  "pair_edges cfg player_team ea eb =
     (let pa = fst ea; posa = snd ea; ta = team_of player_team pa;
          pb = fst eb; posb = snd eb; tb = team_of player_team pb;
          d = dist_vec posa posb
      in if ta = tb
         then (if d \<le> teammate_radius cfg
               then [\<lparr>src = pa, dst = pb, etype = TEAM_NEAR, e_features = [(''d'', d)]\<rparr>]
               else [])
         else (if d \<le> opponent_radius cfg
               then [\<lparr>src = pa, dst = pb, etype = OPP_NEAR, e_features = [(''d'', d)]\<rparr>]
               else []))"

definition proximity_edges ::
  "algo_config \<Rightarrow> (string, string) dict \<Rightarrow> (string, vec2) dict \<Rightarrow> graph_edge list" where
  "proximity_edges cfg player_team plys =
     concat (map (\<lambda>a. concat (map (\<lambda>b. if a = b then []
                                         else pair_edges cfg player_team (plys ! a) (plys ! b))
                                  [0..<length plys]))
                 [0..<length plys])"

definition ball_link_edges :: "vec2 \<Rightarrow> (string, vec2) dict \<Rightarrow> graph_edge list" where
  "ball_link_edges b plys =
     map (\<lambda>(pid, p). \<lparr>src = pid, dst = pid, etype = BALL_LINK,
                       e_features = [(''ball_d'', dist_vec p (fst b, snd b)),
                                     (''ball_x'', fst b), (''ball_y'', snd b)]\<rparr>) plys"

definition build_graph ::
  "frame \<Rightarrow> real list \<Rightarrow> (nat, (string, vec2) dict) dict \<Rightarrow> (string, string) dict
     \<Rightarrow> (string, string) dict \<Rightarrow> algo_config \<Rightarrow> error + frame_graph" where
  "build_graph fr t_rel v_by_frame player_team player_role cfg =
     (let i = frame_idx fr in
      case map_of v_by_frame i of
        None \<Rightarrow> (if players fr = []
                  then (if i < length t_rel
                        then Inr \<lparr>g_frame_idx = i, nodes = [], edges = [],
                                  g_ball_pos = ball_pos fr, g_t_rel = t_rel ! i\<rparr>
                        else Inl IndexError)
                  else Inl (KeyError (str_nat i)))
      | Some v_i \<Rightarrow>
          (case build_nodes (players fr) v_i player_team player_role [] of
             Inl e \<Rightarrow> Inl e
           | Inr nds \<Rightarrow>
               if i < length t_rel
               then Inr \<lparr>g_frame_idx = i, nodes = nds,
                         edges = proximity_edges cfg player_team (players fr)
                                 @ ball_link_edges (ball_pos fr) (players fr),
                         g_ball_pos = ball_pos fr, g_t_rel = t_rel ! i\<rparr>
               else Inl IndexError))"

fun build_frame_graphs ::
  "frame list \<Rightarrow> real list \<Rightarrow> (nat, (string, vec2) dict) dict \<Rightarrow> (string, string) dict
     \<Rightarrow> (string, string) dict \<Rightarrow> algo_config \<Rightarrow> error + frame_graph list" where
  "build_frame_graphs [] t_rel v_by_frame player_team player_role cfg = Inr []"
| "build_frame_graphs (fr # frames) t_rel v_by_frame player_team player_role cfg =
     (case build_graph fr t_rel v_by_frame player_team player_role cfg of
        Inl e \<Rightarrow> Inl e
      | Inr g \<Rightarrow>
          (case build_frame_graphs frames t_rel v_by_frame player_team player_role cfg of
             Inl e \<Rightarrow> Inl e
           | Inr gs \<Rightarrow> Inr (g # gs)))"

text \<open>The per-player summary dict, whose five keys are fixed, as a record.\<close>

record summary =
  pressure_n :: real
  min_opp_d :: pyfloat
  support_n :: real
  min_team_d :: pyfloat
  ball_d :: real

definition summary_init :: "frame_graph \<Rightarrow> (string, summary) dict" where
  "summary_init g =
     map (\<lambda>(pid, n). (pid, \<lparr>pressure_n = 0, min_opp_d = PInf, support_n = 0, min_team_d = PInf,
                              ball_d = dist_vec (n_pos n) (g_ball_pos g)\<rparr>)) (nodes g)"

text \<open>One step of the edge scan of \<open>summarize_pressure_support\<close>.\<close>

definition summary_step :: "(string, summary) dict \<Rightarrow> graph_edge \<Rightarrow> error + (string, summary) dict" where
  "summary_step out e =
     (case etype e of
        OPP_NEAR \<Rightarrow>
          (case lookup (e_features e) ''d'' of
             Inl er \<Rightarrow> Inl er
           | Inr d \<Rightarrow>
               (case lookup out (src e) of
                  Inl er \<Rightarrow> Inl er
                | Inr s \<Rightarrow>
                    (let s1 = s\<lparr>pressure_n := pressure_n s + 1\<rparr>;
                         s2 = (if flt (Fin d) (min_opp_d s1) then s1\<lparr>min_opp_d := Fin d\<rparr> else s1)
                     in Inr (AList.update (src e) s2 out))))
      | TEAM_NEAR \<Rightarrow>
          (case lookup (e_features e) ''d'' of
             Inl er \<Rightarrow> Inl er
           | Inr d \<Rightarrow>
               (case lookup out (src e) of
                  Inl er \<Rightarrow> Inl er
                | Inr s \<Rightarrow>
                    (let s1 = s\<lparr>support_n := support_n s + 1\<rparr>;
                         s2 = (if flt (Fin d) (min_team_d s1) then s1\<lparr>min_team_d := Fin d\<rparr> else s1)
                     in Inr (AList.update (src e) s2 out))))
      | BALL_LINK \<Rightarrow>
          (case lookup (e_features e) ''ball_d'' of
             Inl er \<Rightarrow> Inl er
           | Inr bd \<Rightarrow>
               (case lookup out (src e) of
                  Inl er \<Rightarrow> Inl er
                | Inr s \<Rightarrow> Inr (AList.update (src e) (s\<lparr>ball_d := bd\<rparr>) out))))"

fun summary_scan :: "graph_edge list \<Rightarrow> (string, summary) dict \<Rightarrow> error + (string, summary) dict" where
  "summary_scan [] out = Inr out"
| "summary_scan (e # es) out =
     (case summary_step out e of Inl er \<Rightarrow> Inl er | Inr out' \<Rightarrow> summary_scan es out')"

definition summarize_pressure_support ::
  "frame_graph \<Rightarrow> algo_config \<Rightarrow> error + (string, summary) dict" where
  "summarize_pressure_support g cfg = summary_scan (edges g) (summary_init g)"

section \<open>Candidate generation (baseline/candidates.py)\<close>

text \<open>The loop of \<open>_nearest_opponent\<close> over \<open>graph.nodes.items()\<close>.\<close>

fun nearest_opponent_loop ::
  "(string, graph_node) dict \<Rightarrow> string \<Rightarrow> string \<Rightarrow> vec2 \<Rightarrow> (string, string) dict
     \<Rightarrow> string option \<times> pyfloat \<Rightarrow> string option \<times> pyfloat" where
  "nearest_opponent_loop [] player_id team p player_team best = best"
| "nearest_opponent_loop ((other_id, n) # rest) player_id team p player_team (best_id, best_d) =
     (if other_id = player_id
      then nearest_opponent_loop rest player_id team p player_team (best_id, best_d)
      else if team_of player_team other_id = team
      then nearest_opponent_loop rest player_id team p player_team (best_id, best_d)
      else (let d = dist_vec p (n_pos n) in
            if flt (Fin d) best_d
            then nearest_opponent_loop rest player_id team p player_team (Some other_id, Fin d)
            else nearest_opponent_loop rest player_id team p player_team (best_id, best_d)))"

definition nearest_opponent ::
  "frame_graph \<Rightarrow> string \<Rightarrow> (string, string) dict \<Rightarrow> error + (string option \<times> pyfloat)" where
  "nearest_opponent g player_id player_team =
     (let team = team_of player_team player_id in
      case lookup (nodes g) player_id of
        Inl e \<Rightarrow> Inl e
      | Inr nd \<Rightarrow>
          Inr (nearest_opponent_loop (nodes g) player_id team (n_pos nd) player_team (None, PInf)))"

fun best_support_loop ::
  "(string, graph_node) dict \<Rightarrow> string \<Rightarrow> string \<Rightarrow> vec2 \<Rightarrow> (string, string) dict \<Rightarrow> algo_config
     \<Rightarrow> string option \<times> real \<Rightarrow> string option \<times> real" where
  "best_support_loop [] player_id team p player_team cfg best = best"
| "best_support_loop ((other_id, n) # rest) player_id team p player_team cfg (best_id, best_score) =
     (if other_id = player_id
      then best_support_loop rest player_id team p player_team cfg (best_id, best_score)
      else if team_of player_team other_id \<noteq> team
      then best_support_loop rest player_id team p player_team cfg (best_id, best_score)
      else (let d = dist_vec p (n_pos n);
                ahead = (if is_ahead (n_pos n) p (attack_direction cfg) then 1 else 0);
                cone = (if in_forward_cone p (n_pos n) (attack_direction cfg) (3 / 10) then 1 else 0);
                sc = 2 * ahead + 1 * cone - (15 / 100) * d
            in if sc > best_score
               then best_support_loop rest player_id team p player_team cfg (Some other_id, sc)
               else best_support_loop rest player_id team p player_team cfg (best_id, best_score)))"

definition best_support_teammate ::
  "frame_graph \<Rightarrow> string \<Rightarrow> (string, string) dict \<Rightarrow> algo_config
     \<Rightarrow> error + (string option \<times> real)" where
  "best_support_teammate g player_id player_team cfg =
     (let team = team_of player_team player_id in
      case lookup (nodes g) player_id of
        Inl e \<Rightarrow> Inl e
      | Inr nd \<Rightarrow>
          Inr (best_support_loop (nodes g) player_id team (n_pos nd) player_team cfg
                 (None, - (10 ^ 9))))"

text \<open>
  The clearance loop inside the grid search: the distance from \<open>anchor\<close> to the nearest
  opponent, \<open>inf\<close> when there is none.
\<close>

fun min_opp_loop ::
  "(string, graph_node) dict \<Rightarrow> string \<Rightarrow> (string, string) dict \<Rightarrow> vec2 \<Rightarrow> pyfloat \<Rightarrow> pyfloat" where
  "min_opp_loop [] player_id player_team a min_opp = min_opp"
| "min_opp_loop ((oid, on) # rest) player_id player_team a min_opp =
     (if oid = player_id then min_opp_loop rest player_id player_team a min_opp
      else if team_of player_team oid = team_of player_team player_id
      then min_opp_loop rest player_id player_team a min_opp
      else (let d = dist_vec a (n_pos on) in
            if flt (Fin d) min_opp then min_opp_loop rest player_id player_team a (Fin d)
            else min_opp_loop rest player_id player_team a min_opp))"

text \<open>
  The body of the inner \<open>while\<close> loop for the grid point \<open>(x, y)\<close>: the updated
  \<open>(best_anchor, best_value)\<close>, or the \<open>ZeroDivisionError\<close> of \<open>anchor[0] / pitch.length\<close>.
\<close>

definition space_point ::
  "frame_graph \<Rightarrow> pitch \<Rightarrow> string \<Rightarrow> (string, string) dict \<Rightarrow> algo_config \<Rightarrow> vec2
     \<Rightarrow> real \<Rightarrow> real \<Rightarrow> vec2 option \<times> pyfloat \<Rightarrow> error + (vec2 option \<times> pyfloat)" where
  "space_point g ptch player_id player_team cfg p x y best =
     (let a = (x, y);
          min_opp = min_opp_loop (nodes g) player_id player_team a PInf
      in if flt min_opp (Fin (min_space_clearance cfg)) then Inr best
         else if pitch_length ptch = 0 then Inl ZeroDivisionError
         else (let forward_progress =
                     (if attack_direction cfg > 0 then fst a / pitch_length ptch
                      else 1 - fst a / pitch_length ptch);
                   d_self = dist_vec a p;
                   v = fadd (fadd (fscale (15 / 10) min_opp) (Fin (8 * forward_progress)))
                            (Fin (- ((25 / 100) * d_self)))
               in if flt (snd best) v then Inr (Some a, v) else Inr best))"

text \<open>
  The two \<open>while\<close> loops of \<open>_best_open_space_anchor\<close>. The steps \<open>y += cfg.space_grid_dy\<close>
  and \<open>x += cfg.space_grid_dx\<close> are rounded float additions, so a step that is zero,
  negative or too small against the coordinate leaves the loop variable inside the
  window for ever. The loops are therefore partial functions: \<open>None\<close> means that the loop
  does not return. A variable that reaches \<open>inf\<close> ends its loop. One that reaches \<open>-inf\<close>
  stays there: the next grid point is never cramped, so it raises the
  \<open>ZeroDivisionError\<close> of a zero pitch length and otherwise the loop runs for ever.
  The window bounds and their tolerance \<open>1e-6\<close> are computed over the reals.
\<close>

partial_function (option) space_loop_y ::
  "frame_graph \<Rightarrow> pitch \<Rightarrow> string \<Rightarrow> (string, string) dict \<Rightarrow> algo_config \<Rightarrow> vec2
     \<Rightarrow> real \<Rightarrow> real \<Rightarrow> real \<Rightarrow> vec2 option \<times> pyfloat
     \<Rightarrow> (error + (vec2 option \<times> pyfloat)) option" where
  "space_loop_y g ptch player_id player_team cfg p y1 x y best =
     (if y \<le> y1 + 1 / 10 ^ 6
      then (case space_point g ptch player_id player_team cfg p x y best of
              Inl e \<Rightarrow> Some (Inl e)
            | Inr best' \<Rightarrow>
                (case round64 (y + space_grid_dy cfg) of
                   Fin y' \<Rightarrow> space_loop_y g ptch player_id player_team cfg p y1 x y' best'
                 | NInf \<Rightarrow> (if pitch_length ptch = 0 then Some (Inl ZeroDivisionError) else None)
                 | _ \<Rightarrow> Some (Inr best')))
      else Some (Inr best))"

partial_function (option) space_loop_x ::
  "frame_graph \<Rightarrow> pitch \<Rightarrow> string \<Rightarrow> (string, string) dict \<Rightarrow> algo_config \<Rightarrow> vec2
     \<Rightarrow> real \<Rightarrow> real \<Rightarrow> real \<Rightarrow> real \<Rightarrow> vec2 option \<times> pyfloat
     \<Rightarrow> (error + (vec2 option \<times> pyfloat)) option" where
  "space_loop_x g ptch player_id player_team cfg p x1 y0 y1 x best =
     (if x \<le> x1 + 1 / 10 ^ 6
      then (case space_loop_y g ptch player_id player_team cfg p y1 x y0 best of
              None \<Rightarrow> None
            | Some (Inl e) \<Rightarrow> Some (Inl e)
            | Some (Inr best') \<Rightarrow>
                (case round64 (x + space_grid_dx cfg) of
                   Fin x' \<Rightarrow> space_loop_x g ptch player_id player_team cfg p x1 y0 y1 x' best'
                 | NInf \<Rightarrow> (if y0 \<le> y1 + 1 / 10 ^ 6 \<and> pitch_length ptch = 0
                             then Some (Inl ZeroDivisionError) else None)
                 | _ \<Rightarrow> Some (Inr best')))
      else Some (Inr best))"

definition best_open_space_anchor ::
  "frame_graph \<Rightarrow> pitch \<Rightarrow> string \<Rightarrow> (string, string) dict \<Rightarrow> algo_config
     \<Rightarrow> (error + (vec2 option \<times> pyfloat)) option" where
  "best_open_space_anchor g ptch player_id player_team cfg =
     (case lookup (nodes g) player_id of
        Inl e \<Rightarrow> Some (Inl e)
      | Inr nd \<Rightarrow>
          (let p = n_pos nd; px = fst p; py = snd p;
               x0 = (if attack_direction cfg > 0 then px else max 0 (px - 24));
               x1 = (if attack_direction cfg > 0 then min (pitch_length ptch) (px + 24) else px);
               y0 = max 0 (py - 18);
               y1 = min (pitch_width ptch) (py + 18)
           in case space_loop_x g ptch player_id player_team cfg p x1 y0 y1 x0
                     (None, Fin (- (10 ^ 9))) of
                None \<Rightarrow> None
              | Some (Inl e) \<Rightarrow> Some (Inl e)
              | Some (Inr (best_anchor, best_value)) \<Rightarrow>
                  (case best_anchor of
                     None \<Rightarrow> Some (Inr (None, Fin (- (10 ^ 9))))
                   | Some a \<Rightarrow> Some (Inr (Some a, best_value)))))"

text \<open>The five candidate blocks of \<open>generate_candidates_for_player\<close>, in source order.\<close>

definition ball_candidate ::
  "frame_graph \<Rightarrow> string \<Rightarrow> algo_config \<Rightarrow> (string, summary) dict
     \<Rightarrow> error + candidate_event list" where
  "ball_candidate g player_id cfg summaries =
     (if enable_ball_focus cfg
      then (case lookup summaries player_id of
              Inl e \<Rightarrow> Inl e
            | Inr sm \<Rightarrow>
                Inr [\<lparr>c_name = ''BALL_NEARBY'',
                      c_focus = \<lparr>target_type = BALL,
                                 anchor = (fst (g_ball_pos g), snd (g_ball_pos g)),
                                 target_player_id = None, tag = Some ''ball''\<rparr>,
                      c_features = [(''ball_d'', Fin (ball_d sm))], c_meta = []\<rparr>])
      else Inr [])"

definition opp_candidate ::
  "frame_graph \<Rightarrow> string \<Rightarrow> (string, string) dict \<Rightarrow> algo_config \<Rightarrow> (string, summary) dict
     \<Rightarrow> error + candidate_event list" where
  "opp_candidate g player_id player_team cfg summaries =
     (if enable_marking_threats cfg
      then (case nearest_opponent g player_id player_team of
              Inl e \<Rightarrow> Inl e
            | Inr (None, opp_d) \<Rightarrow> Inr []
            | Inr (Some opp_id, opp_d) \<Rightarrow>
                (case lookup (nodes g) opp_id of
                   Inl e \<Rightarrow> Inl e
                 | Inr on \<Rightarrow>
                     (case lookup summaries player_id of
                        Inl e \<Rightarrow> Inl e
                      | Inr sm \<Rightarrow>
                          Inr [\<lparr>c_name = ''OPP_PRESSURE'',
                                c_focus = \<lparr>target_type = PLAYER, anchor = n_pos on,
                                           target_player_id = Some opp_id, tag = Some ''press''\<rparr>,
                                c_features = [(''opp_d'', opp_d),
                                              (''pressure_n'', Fin (pressure_n sm))],
                                c_meta = [(''opponent_id'', opp_id)]\<rparr>])))
      else Inr [])"

definition mate_candidate ::
  "frame_graph \<Rightarrow> string \<Rightarrow> (string, string) dict \<Rightarrow> algo_config \<Rightarrow> (string, summary) dict
     \<Rightarrow> error + candidate_event list" where
  "mate_candidate g player_id player_team cfg summaries =
     (if enable_pass_targets cfg
      then (case best_support_teammate g player_id player_team cfg of
              Inl e \<Rightarrow> Inl e
            | Inr (None, mate_score) \<Rightarrow> Inr []
            | Inr (Some mate_id, mate_score) \<Rightarrow>
                (case lookup (nodes g) mate_id of
                   Inl e \<Rightarrow> Inl e
                 | Inr mn \<Rightarrow>
                     (case lookup summaries player_id of
                        Inl e \<Rightarrow> Inl e
                      | Inr sm \<Rightarrow>
                          Inr [\<lparr>c_name = ''TEAM_SUPPORT'',
                                c_focus = \<lparr>target_type = PLAYER, anchor = n_pos mn,
                                           target_player_id = Some mate_id,
                                           tag = Some ''support''\<rparr>,
                                c_features = [(''mate_score'', Fin mate_score),
                                              (''support_n'', Fin (support_n sm))],
                                c_meta = [(''teammate_id'', mate_id)]\<rparr>])))
      else Inr [])"

definition space_candidate ::
  "frame_graph \<Rightarrow> pitch \<Rightarrow> string \<Rightarrow> (string, string) dict \<Rightarrow> algo_config
     \<Rightarrow> (error + candidate_event list) option" where
  "space_candidate g ptch player_id player_team cfg =
     (if enable_space_targets cfg
      then (case best_open_space_anchor g ptch player_id player_team cfg of
              None \<Rightarrow> None
            | Some (Inl e) \<Rightarrow> Some (Inl e)
            | Some (Inr (None, space_value)) \<Rightarrow> Some (Inr [])
            | Some (Inr (Some space_anchor, space_value)) \<Rightarrow>
                Some (Inr [\<lparr>c_name = ''OPEN_SPACE'',
                             c_focus = \<lparr>target_type = ZONE, anchor = space_anchor,
                                        target_player_id = None, tag = Some ''space''\<rparr>,
                             c_features = [(''space_value'', space_value)], c_meta = []\<rparr>]))
      else Some (Inr []))"

definition goal_candidate :: "pitch \<Rightarrow> algo_config \<Rightarrow> vec2 \<Rightarrow> candidate_event list" where
  "goal_candidate ptch cfg p =
     (if enable_goal_focus cfg
      then (let goal = attacking_goal_center ptch (attack_direction cfg) in
            [\<lparr>c_name = ''GOAL'',
              c_focus = \<lparr>target_type = GOAL, anchor = goal, target_player_id = None,
                         tag = Some ''goal''\<rparr>,
              c_features = [(''goal_d'', Fin (dist_vec p goal))], c_meta = []\<rparr>])
      else [])"

definition generate_candidates_for_player ::
  "frame_graph \<Rightarrow> pitch \<Rightarrow> string \<Rightarrow> (string, string) dict \<Rightarrow> algo_config
     \<Rightarrow> (string, summary) dict \<Rightarrow> (error + candidate_event list) option" where
  "generate_candidates_for_player g ptch player_id player_team cfg summaries =
     (case map_of (nodes g) player_id of
        None \<Rightarrow> Some (Inr [])
      | Some nd \<Rightarrow>
          (case ball_candidate g player_id cfg summaries of
             Inl e \<Rightarrow> Some (Inl e)
           | Inr c1 \<Rightarrow>
               (case opp_candidate g player_id player_team cfg summaries of
                  Inl e \<Rightarrow> Some (Inl e)
                | Inr c2 \<Rightarrow>
                    (case mate_candidate g player_id player_team cfg summaries of
                       Inl e \<Rightarrow> Some (Inl e)
                     | Inr c3 \<Rightarrow>
                         (case space_candidate g ptch player_id player_team cfg of
                            None \<Rightarrow> None
                          | Some (Inl e) \<Rightarrow> Some (Inl e)
                          | Some (Inr c4) \<Rightarrow>
                              Some (Inr (c1 @ c2 @ c3 @ c4
                                         @ goal_candidate ptch cfg (n_pos nd))))))))"

section \<open>Scoring (baseline/scoring.py)\<close>

text \<open>
  Number formatting of the reason strings: \<open>f"{v:.2f}"\<close>, \<open>f"{v:.0f}"\<close> and
  \<open>f"{v:+.2f}"\<close>. Python prints the correctly rounded decimal expansion of the binary64
  value, so \<open>fmt_fixed\<close> first rounds the real to binary64 and then rounds its exact
  value half to even at the requested digit.
\<close>

definition zero_pad :: "nat \<Rightarrow> string \<Rightarrow> string" where
  "zero_pad n s = replicate (n - length s) CHR ''0'' @ s"

definition fmt_digits :: "nat \<Rightarrow> real \<Rightarrow> string" where
  "fmt_digits digits a =
     (let n = nat (round_half_even (a * 10 ^ digits))
      in str_nat (n div 10 ^ digits)
         @ (if digits = 0 then [] else ''.'' @ zero_pad digits (str_nat (n mod 10 ^ digits))))"

definition fmt_fixed :: "nat \<Rightarrow> real \<Rightarrow> string" where
  "fmt_fixed digits v =
     (if v < 0 then ''-'' else [])
     @ (case round64 v of
          Fin b \<Rightarrow> fmt_digits digits \<bar>b\<bar>
        | _ \<Rightarrow> ''inf'')"

fun fmt_float :: "nat \<Rightarrow> pyfloat \<Rightarrow> string" where
  "fmt_float digits (Fin v) = fmt_fixed digits v"
| "fmt_float digits PInf = ''inf''"
| "fmt_float digits NInf = ''-inf''"
| "fmt_float digits NaN = ''nan''"

definition fmt_signed :: "nat \<Rightarrow> real \<Rightarrow> string" where
  "fmt_signed digits v = (if v < 0 then fmt_fixed digits v else ''+'' @ fmt_fixed digits v)"

text \<open>\<open>role.upper().strip()\<close> on ASCII strings.\<close>

definition upper_char :: "char \<Rightarrow> char" where
  "upper_char c =
     (let n = (of_char c :: nat) in if 97 \<le> n \<and> n \<le> 122 then char_of (n - 32) else c)"

definition is_space_char :: "char \<Rightarrow> bool" where
  "is_space_char c = (let n = (of_char c :: nat) in (9 \<le> n \<and> n \<le> 13) \<or> (28 \<le> n \<and> n \<le> 32))"

definition py_upper :: "string \<Rightarrow> string" where
  "py_upper s = map upper_char s"

definition py_strip :: "string \<Rightarrow> string" where
  "py_strip s = rev (dropWhile is_space_char (rev (dropWhile is_space_char s)))"

definition role_prior :: "string \<Rightarrow> string \<Rightarrow> real" where
  "role_prior role candidate_name =
     (let r = py_strip (py_upper role) in
      if candidate_name = ''OPP_PRESSURE'' \<and> r \<in> set [''GK'', ''CB'', ''LB'', ''RB''] then 8 / 10
      else if candidate_name = ''OPP_PRESSURE'' \<and> r \<in> set [''ST'', ''LW'', ''RW''] then 2 / 10
      else if candidate_name = ''TEAM_SUPPORT'' \<and> r \<in> set [''CM'', ''CDM''] then 7 / 10
      else if candidate_name = ''OPEN_SPACE'' \<and> r \<in> set [''ST'', ''LW'', ''RW'', ''CM''] then 5 / 10
      else if candidate_name = ''GOAL'' \<and> r \<in> set [''ST'', ''LW'', ''RW''] then 8 / 10
      else 0)"

text \<open>
  The candidate-specific branch of \<open>_score_one\<close>, started from the score and reasons
  accumulated by the role prior.
\<close>

definition score_specific ::
  "frame_graph \<Rightarrow> vec2 \<Rightarrow> candidate_event \<Rightarrow> summary \<Rightarrow> algo_config
     \<Rightarrow> pyfloat \<times> string list \<Rightarrow> pyfloat \<times> string list" where
  "score_specific g p c sm cfg sr =
     (let s = fst sr; rs = snd sr in
      if c_name c = ''BALL_NEARBY'' then
        (let s1 = fadd s (Fin (w_ball_distance cfg * ball_d sm));
             rs1 = rs @ [''ball_d='' @ fmt_fixed 2 (ball_d sm)]
         in if in_forward_cone p (g_ball_pos g) (attack_direction cfg) 0
            then (fadd s1 (Fin (w_ball_motion cfg * (6 / 10))), rs1 @ [''ball_in_forward_half''])
            else (s1, rs1))
      else if c_name c = ''OPP_PRESSURE'' then
        (let opp_d = get_default (c_features c) ''opp_d'' (min_opp_d sm);
             s1 = (if flt opp_d PInf
                   then fadd s (fscale (w_opponent_pressure cfg) (frecip (pymax opp_d (Fin (1 / 2)))))
                   else s);
             rs1 = (if flt opp_d PInf then rs @ [''opp_d='' @ fmt_float 2 opp_d] else rs)
         in (fadd s1 (Fin (w_opponent_pressure cfg * (2 / 10) * pressure_n sm)),
             rs1 @ [''pressure_n='' @ fmt_fixed 0 (pressure_n sm)]))
      else if c_name c = ''TEAM_SUPPORT'' then
        (let mate_score = get_default (c_features c) ''mate_score'' (Fin 0);
             s1 = fadd s (fscale (w_teammate_support cfg) mate_score);
             rs1 = rs @ [''mate_score='' @ fmt_float 2 mate_score];
             s2 = fadd s1 (Fin (w_teammate_support cfg * (1 / 10) * support_n sm));
             rs2 = rs1 @ [''support_n='' @ fmt_fixed 0 (support_n sm)]
         in if ball_d sm < 18
            then (fadd s2 (Fin (w_pass_likelihood cfg * (1 - ball_d sm / 18))),
                  rs2 @ [''ball_close_boost_for_pass''])
            else (s2, rs2))
      else if c_name c = ''OPEN_SPACE'' then
        (let space_value = get_default (c_features c) ''space_value'' (Fin 0);
             s1 = fadd s (fscale (w_space_value cfg) space_value);
             rs1 = rs @ [''space_value='' @ fmt_float 2 space_value]
         in if is_ahead (anchor (c_focus c)) p (attack_direction cfg)
            then (fadd s1 (Fin (w_space_value cfg * (5 / 10))), rs1 @ [''space_ahead_bonus''])
            else (s1, rs1))
      else if c_name c = ''GOAL'' then
        (let goal_d = get_default (c_features c) ''goal_d'' (Fin (dist_vec p (anchor (c_focus c))));
             s1 = fadd s (fscale (w_goal_proximity cfg) (frecip (pymax goal_d (Fin 1))));
             rs1 = rs @ [''goal_d='' @ fmt_float 2 goal_d]
         in if ball_d sm < 25
            then (fadd s1 (Fin (w_goal_proximity cfg * (4 / 10))), rs1 @ [''ball_close_goal_bonus''])
            else (s1, rs1))
      else (s, rs @ [''unknown_candidate'']))"

definition score_one ::
  "frame_graph \<Rightarrow> string \<Rightarrow> vec2 \<Rightarrow> candidate_event \<Rightarrow> (string, summary) dict \<Rightarrow> algo_config
     \<Rightarrow> string \<Rightarrow> error + (pyfloat \<times> string list)" where
  "score_one g player_id p c summaries cfg role =
     (case lookup summaries player_id of
        Inl e \<Rightarrow> Inl e
      | Inr sm \<Rightarrow>
          (let rp = role_prior role (c_name c);
               sr = (if rp \<noteq> 0
                     then (Fin (0 + w_role_prior cfg * rp),
                           [''role_prior('' @ role @ '')='' @ fmt_signed 2 rp])
                     else (Fin 0, []))
           in Inr (score_specific g p c sm cfg sr)))"

text \<open>
  \<open>list.sort(key=lambda e: e.score, reverse=True)\<close>. When no key is \<open>nan\<close> the result
  is the stable descending order, computed here as an insertion sort on the comparison
  \<open>flt\<close>. With a \<open>nan\<close> key the comparisons are not a total preorder and the order that
  CPython produces depends on the run and merge strategy of its sort; the model then
  fixes no order: the result \<open>nan_order es\<close> is some permutation of the input.
\<close>

fun insort_desc :: "scored_event \<Rightarrow> scored_event list \<Rightarrow> scored_event list" where
  "insort_desc e [] = [e]"
| "insort_desc e (y # ys) =
     (if flt (score e) (score y) then y # insort_desc e ys else e # y # ys)"

definition nan_order :: "scored_event list \<Rightarrow> scored_event list" where
  "nan_order es = (SOME ys. mset ys = mset es)"

definition sort_desc :: "scored_event list \<Rightarrow> scored_event list" where
  "sort_desc es =
     (if list_ex (\<lambda>e. score e = NaN) es then nan_order es else foldr insort_desc es [])"

definition clamp_score :: "algo_config \<Rightarrow> pyfloat \<Rightarrow> pyfloat" where
  "clamp_score cfg s =
     (if clamp_scores cfg then pymax (Fin (score_min cfg)) (pymin (Fin (score_max cfg)) s) else s)"

fun score_loop ::
  "frame_graph \<Rightarrow> string \<Rightarrow> vec2 \<Rightarrow> candidate_event list \<Rightarrow> (string, summary) dict
     \<Rightarrow> algo_config \<Rightarrow> string \<Rightarrow> scored_event list \<Rightarrow> error + scored_event list" where
  "score_loop g player_id p [] summaries cfg role scored = Inr scored"
| "score_loop g player_id p (c # cs) summaries cfg role scored =
     (case score_one g player_id p c summaries cfg role of
        Inl e \<Rightarrow> Inl e
      | Inr (s, rs) \<Rightarrow>
          score_loop g player_id p cs summaries cfg role
            (scored @ [\<lparr>name = c_name c, score = clamp_score cfg s, focus = c_focus c,
                         reasons = rs, meta = c_meta c\<rparr>]))"

definition score_candidates ::
  "frame_graph \<Rightarrow> string \<Rightarrow> candidate_event list \<Rightarrow> (string, summary) dict \<Rightarrow> algo_config
     \<Rightarrow> string \<Rightarrow> error + scored_event list" where
  "score_candidates g player_id candidates summaries cfg role =
     (case map_of (nodes g) player_id of
        None \<Rightarrow> Inr []
      | Some nd \<Rightarrow>
          (case score_loop g player_id (n_pos nd) candidates summaries cfg role [] of
             Inl e \<Rightarrow> Inl e
           | Inr scored \<Rightarrow> Inr (sort_desc scored)))"

section \<open>Temporal smoothing (baseline/smoothing.py)\<close>

text \<open>
  \<open>_same_focus\<close>. The anchor test \<open>abs(ax - bx) <= 1e-3\<close> is a float subtraction compared
  with the binary64 number nearest to 0.001.
\<close>

definition anchor_close :: "real \<Rightarrow> real \<Rightarrow> bool" where
  "anchor_close u v =
     (case fadd64 (Fin u) (Fin (- v)) of
        Fin dlt \<Rightarrow> \<bar>dlt\<bar> \<le> rnd (1 / 10 ^ 3)
      | _ \<Rightarrow> False)"

definition same_focus :: "scored_event \<Rightarrow> scored_event \<Rightarrow> bool" where
  "same_focus a b =
     (if target_type (focus a) \<noteq> target_type (focus b) then False
      else if target_player_id (focus a) \<noteq> target_player_id (focus b) then False
      else (let ax = fst (anchor (focus a)); ay = snd (anchor (focus a));
                bx = fst (anchor (focus b)); by = snd (anchor (focus b))
            in anchor_close ax bx \<and> anchor_close ay by))"

text \<open>
  The new event built for \<open>ev\<close> in the loop body \<open>for ev in events\<close>; its score
  \<open>float(ev.score + delta)\<close> is a rounded float addition.
\<close>

definition adjust :: "algo_config \<Rightarrow> scored_event \<Rightarrow> scored_event \<Rightarrow> scored_event" where
  "adjust cfg prev_primary ev =
     (let delta = (if same_focus ev prev_primary then persistence_bonus cfg
                   else - switch_penalty cfg)
      in \<lparr>name = name ev,
          score = fadd64 (score ev) (Fin delta),
          focus = focus ev,
          reasons = reasons ev @ (if delta > 0 then [''persist_bonus''] else [''switch_penalty'']),
          meta = meta ev\<rparr>)"

text \<open>
  The loop \<open>for i in sorted(scored_by_frame.keys())\<close>, over the entries in key order
  (\<open>scored_by_frame[i]\<close> is the entry's value), carrying \<open>out\<close> and \<open>prev_primary\<close>.
\<close>

fun smooth_loop ::
  "algo_config \<Rightarrow> (nat \<times> scored_event list) list \<Rightarrow> (nat, scored_event list) dict
     \<Rightarrow> scored_event option \<Rightarrow> (nat, scored_event list) dict" where
  "smooth_loop cfg [] out prev_primary = out"
| "smooth_loop cfg ((i, []) # rest) out prev_primary =
     smooth_loop cfg rest (AList.update i [] out) prev_primary"
| "smooth_loop cfg ((i, ev # evs) # rest) out None =
     smooth_loop cfg rest (AList.update i (ev # evs) out) (Some ev)"
| "smooth_loop cfg ((i, ev # evs) # rest) out (Some prev) =
     (let adjusted = sort_desc (map (adjust cfg prev) (ev # evs))
      in smooth_loop cfg rest (AList.update i adjusted out) (Some (hd adjusted)))"

definition apply_temporal_smoothing ::
  "(nat, scored_event list) dict \<Rightarrow> algo_config \<Rightarrow> (nat, scored_event list) dict" where
  "apply_temporal_smoothing scored_by_frame cfg =
     (if scored_by_frame = [] then scored_by_frame
      else smooth_loop cfg (sort_key fst scored_by_frame) [] None)"

section \<open>Policy orchestration (baseline/policy.py, api.py)\<close>

definition fallback_focus :: "frame \<Rightarrow> focus_target" where
  "fallback_focus fr =
     \<lparr>target_type = BALL, anchor = ball_pos fr, target_player_id = None, tag = Some ''ball''\<rparr>"

text \<open>
  The scoring loops \<open>for g in graphs: ... for pid in player_ids: ...\<close>, which fill
  \<open>scored_per_player[pid][g.frame_idx]\<close>. Every id of \<open>player_ids\<close> is a key of
  \<open>scored_per_player\<close> from its initialisation on.
\<close>

fun score_players ::
  "frame_graph \<Rightarrow> (string, summary) dict \<Rightarrow> string list \<Rightarrow> pitch \<Rightarrow> (string, string) dict
     \<Rightarrow> (string, string) dict \<Rightarrow> algo_config \<Rightarrow> (string, (nat, scored_event list) dict) dict
     \<Rightarrow> (error + (string, (nat, scored_event list) dict) dict) option" where
  "score_players g summaries [] ptch player_team player_role cfg spp = Some (Inr spp)"
| "score_players g summaries (pid # pids) ptch player_team player_role cfg spp =
     (let role = role_of player_role pid in
      case generate_candidates_for_player g ptch pid player_team cfg summaries of
        None \<Rightarrow> None
      | Some (Inl e) \<Rightarrow> Some (Inl e)
      | Some (Inr cands) \<Rightarrow>
          (case score_candidates g pid cands summaries cfg role of
             Inl e \<Rightarrow> Some (Inl e)
           | Inr scored \<Rightarrow>
               (case lookup spp pid of
                  Inl e \<Rightarrow> Some (Inl e)
                | Inr d \<Rightarrow>
                    score_players g summaries pids ptch player_team player_role cfg
                      (AList.update pid (AList.update (g_frame_idx g) scored d) spp))))"

fun score_graphs ::
  "frame_graph list \<Rightarrow> string list \<Rightarrow> pitch \<Rightarrow> (string, string) dict \<Rightarrow> (string, string) dict
     \<Rightarrow> algo_config \<Rightarrow> (string, (nat, scored_event list) dict) dict
     \<Rightarrow> (error + (string, (nat, scored_event list) dict) dict) option" where
  "score_graphs [] player_ids ptch player_team player_role cfg spp = Some (Inr spp)"
| "score_graphs (g # gs) player_ids ptch player_team player_role cfg spp =
     (case summarize_pressure_support g cfg of
        Inl e \<Rightarrow> Some (Inl e)
      | Inr summaries \<Rightarrow>
          (case score_players g summaries player_ids ptch player_team player_role cfg spp of
             None \<Rightarrow> None
           | Some (Inl e) \<Rightarrow> Some (Inl e)
           | Some (Inr spp') \<Rightarrow> score_graphs gs player_ids ptch player_team player_role cfg spp'))"

text \<open>The body of the final loop: the recommendation of player \<open>pid\<close> at frame \<open>i\<close>.\<close>

definition make_recommendation ::
  "string \<Rightarrow> nat \<Rightarrow> real \<Rightarrow> frame \<Rightarrow> algo_config \<Rightarrow> scored_event list \<Rightarrow> recommendation" where
  "make_recommendation pid i t fr cfg ranked =
     (case ranked of
        [] \<Rightarrow>
          (let topk = [] in
           \<lparr>r_player_id = pid, r_frame_idx = i, r_t_rel = t,
            primary = (if topk \<noteq> [] then focus (hd topk) else fallback_focus fr),
            primary_score = Fin 0, rationale = [''fallback_ball''], r_top_k = topk\<rparr>)
      | prim # _ \<Rightarrow>
          (let topk = take (nat (max 1 (top_k cfg))) ranked in
           \<lparr>r_player_id = pid, r_frame_idx = i, r_t_rel = t,
            primary = (if topk \<noteq> [] then focus (hd topk) else fallback_focus fr),
            primary_score = score prim, rationale = reasons prim, r_top_k = topk\<rparr>))"

definition player_recommendations ::
  "frame list \<Rightarrow> real list \<Rightarrow> algo_config \<Rightarrow> string \<Rightarrow> (nat, scored_event list) dict
     \<Rightarrow> recommendation list" where
  "player_recommendations frames t_rel cfg pid smoothed =
     map (\<lambda>i. make_recommendation pid i (t_rel ! i) (frames ! i) cfg (get_default smoothed i []))
         [0..<length frames]"

text \<open>
  \<open>run_baseline_policy\<close> up to and including the scoring loops: the pseudo-times and
  the filled \<open>scored_per_player\<close>.
\<close>

definition scoring_stage ::
  "frame list \<Rightarrow> pitch \<Rightarrow> (string, string) dict \<Rightarrow> (string, string) dict \<Rightarrow> algo_config
     \<Rightarrow> (error + (real list \<times> (string, (nat, scored_event list) dict) dict)) option" where
  "scoring_stage frames ptch player_team player_role cfg =
     (case infer_pseudotime frames cfg of
        Inl e \<Rightarrow> Some (Inl e)
      | Inr (dt, t_rel) \<Rightarrow>
          (case compute_velocities frames dt of
             Inl e \<Rightarrow> Some (Inl e)
           | Inr v_by_frame \<Rightarrow>
               (case build_frame_graphs frames t_rel v_by_frame player_team player_role cfg of
                  Inl e \<Rightarrow> Some (Inl e)
                | Inr graphs \<Rightarrow>
                    (let player_ids = map fst (players (hd frames)) in
                     case score_graphs graphs player_ids ptch player_team player_role cfg
                            (map (\<lambda>pid. (pid, [])) player_ids) of
                       None \<Rightarrow> None
                     | Some (Inl e) \<Rightarrow> Some (Inl e)
                     | Some (Inr spp) \<Rightarrow> Some (Inr (t_rel, spp))))))"

text \<open>
  The smoothing loop \<open>scored_per_player[pid] = apply_temporal_smoothing(...)\<close> for one
  player, and the list \<open>ranked = scored_per_player[pid].get(i, [])\<close> read by the final loop.
\<close>

definition smoothed_for ::
  "(string, (nat, scored_event list) dict) dict \<Rightarrow> algo_config \<Rightarrow> string
     \<Rightarrow> (nat, scored_event list) dict" where
  "smoothed_for spp cfg pid = apply_temporal_smoothing (get_default spp pid []) cfg"

definition ranked_events ::
  "(string, (nat, scored_event list) dict) dict \<Rightarrow> algo_config \<Rightarrow> string \<Rightarrow> nat
     \<Rightarrow> scored_event list" where
  "ranked_events spp cfg pid i = get_default (smoothed_for spp cfg pid) i []"

definition run_baseline_policy ::
  "frame list \<Rightarrow> pitch \<Rightarrow> (string, string) dict \<Rightarrow> (string, string) dict \<Rightarrow> algo_config
     \<Rightarrow> (error + (string, recommendation list) dict) option" where
  "run_baseline_policy frames ptch player_team player_role cfg =
     (case scoring_stage frames ptch player_team player_role cfg of
        None \<Rightarrow> None
      | Some (Inl e) \<Rightarrow> Some (Inl e)
      | Some (Inr (t_rel, spp)) \<Rightarrow>
          Some (Inr (map (\<lambda>pid. (pid, player_recommendations frames t_rel cfg pid
                                        (smoothed_for spp cfg pid)))
                         (map fst (players (hd frames))))))"

text \<open>
  The public entry point \<open>recommend_player_focus\<close>, from the parsed raw frames and
  metadata on: canonicalize, build the team and role maps, run the policy.
\<close>

definition build_player_maps ::
  "tactic_meta \<Rightarrow> string list \<Rightarrow> (string, string) dict \<times> (string, string) dict" where
  "build_player_maps m valid_player_ids =
     foldl (\<lambda>(player_team, player_role) pid.
              (case map_of (meta_players m) pid of
                 None \<Rightarrow> (AList.update pid ''A'' player_team, AList.update pid [] player_role)
               | Some pmeta \<Rightarrow> (AList.update pid (pm_team pmeta) player_team,
                                 AList.update pid (pm_role pmeta) player_role)))
           ([], []) valid_player_ids"

definition recommend_player_focus ::
  "raw_frame list \<Rightarrow> tactic_meta \<Rightarrow> algo_config
     \<Rightarrow> (error + (string, recommendation list) dict) option" where
  "recommend_player_focus raw_frames m cfg =
     (case canonicalize_frames raw_frames of
        Inl e \<Rightarrow> Some (Inl e)
      | Inr (frames, valid_player_ids) \<Rightarrow>
          (let maps = build_player_maps m valid_player_ids in
           run_baseline_policy frames (meta_pitch m) (fst maps) (snd maps) cfg))"

text \<open>
  What the loop does to one frame, given the carried primary, and the primary carried on
  afterwards; used to state the properties of the smoother.
\<close>

definition smooth_frame ::
  "algo_config \<Rightarrow> scored_event option \<Rightarrow> scored_event list \<Rightarrow> scored_event list" where
  "smooth_frame cfg prev_primary events =
     (if events = [] then []
      else case prev_primary of
             None \<Rightarrow> events
           | Some prev \<Rightarrow> sort_desc (map (adjust cfg prev) events))"

definition next_primary ::
  "algo_config \<Rightarrow> scored_event option \<Rightarrow> scored_event list \<Rightarrow> scored_event option" where
  "next_primary cfg prev_primary events =
     (if events = [] then prev_primary else Some (hd (smooth_frame cfg prev_primary events)))"

fun carried ::
  "algo_config \<Rightarrow> (nat \<times> scored_event list) list \<Rightarrow> scored_event option \<Rightarrow> scored_event option" where
  "carried cfg [] prev_primary = prev_primary"
| "carried cfg ((i, events) # rest) prev_primary =
     carried cfg rest (next_primary cfg prev_primary events)"

text \<open>
  The relation between an input event \<open>e\<close> and its smoothed counterpart \<open>e'\<close> on a frame
  that is adjusted against the carried primary \<open>p\<close>: name, focus and meta are kept, the
  score is the input score plus \<open>persistence_bonus\<close> when the focus of \<open>e\<close> matches that
  of \<open>p\<close> and minus \<open>switch_penalty\<close> otherwise (one float addition), and one tag is
  appended to the reasons.
\<close>

definition adjusted_from ::
  "algo_config \<Rightarrow> scored_event \<Rightarrow> scored_event \<Rightarrow> scored_event \<Rightarrow> bool" where
  "adjusted_from cfg p e e' =
     (name e' = name e \<and> focus e' = focus e \<and> meta e' = meta e \<and>
      (if same_focus e p
       then score e' = fadd64 (score e) (Fin (persistence_bonus cfg)) \<and>
            reasons e' = reasons e @ [if 0 < persistence_bonus cfg then ''persist_bonus''
                                      else ''switch_penalty'']
       else score e' = fadd64 (score e) (Fin (- switch_penalty cfg)) \<and>
            reasons e' = reasons e @ [if switch_penalty cfg < 0 then ''persist_bonus''
                                      else ''switch_penalty'']))"

text \<open>A frame is empty in a dict when its key is absent or maps to the empty list.\<close>

definition empty_at :: "(nat, scored_event list) dict \<Rightarrow> nat \<Rightarrow> bool" where
  "empty_at d k = (get_default d k [] = [])"

section \<open>Notions used to state the pipeline properties\<close>

text \<open>
  A sufficient condition for the grid search of the open-space candidate to return. A
  step \<open>d\<close> through the window \<open>[lo, hi]\<close> advances the loop variable when it is at
  least the smallest positive binary64 number and every coordinate of the window (taken
  with a margin of one unit) has a magnitude of at most \<open>d * 2^51\<close>, within the binary64
  range: then adding \<open>d\<close> to a coordinate always rounds to a larger number. The search
  returns for every player of every frame when it is switched off, or when the pitch
  length is not zero and both steps advance through the player's window.
\<close>

definition coord_ok :: "real \<Rightarrow> real \<Rightarrow> real \<Rightarrow> bool" where
  "coord_ok d lo hi =
     (let m = max \<bar>lo\<bar> (\<bar>hi\<bar> + 1)
      in 1 / 2 ^ 1074 \<le> d \<and> m \<le> d * 2 ^ 51 \<and> m \<le> 2 ^ 1023)"

definition window_ok :: "algo_config \<Rightarrow> pitch \<Rightarrow> vec2 \<Rightarrow> bool" where
  "window_ok cfg ptch p =
     (let px = fst p; py = snd p;
          x0 = (if attack_direction cfg > 0 then px else max 0 (px - 24));
          x1 = (if attack_direction cfg > 0 then min (pitch_length ptch) (px + 24) else px);
          y0 = max 0 (py - 18);
          y1 = min (pitch_width ptch) (py + 18)
      in coord_ok (space_grid_dx cfg) x0 x1 \<and> coord_ok (space_grid_dy cfg) y0 y1)"

definition grid_ok :: "algo_config \<Rightarrow> pitch \<Rightarrow> frame list \<Rightarrow> bool" where
  "grid_ok cfg ptch frames =
     (enable_space_targets cfg \<longrightarrow>
        pitch_length ptch \<noteq> 0 \<and>
        (\<forall>fr\<in>set frames. \<forall>e\<in>set (players fr). window_ok cfg ptch (snd e)))"

text \<open>
  A score inside the clamp interval, and such a score after at most one smoothing
  adjustment (a float addition of the bonus or of the negated penalty).
\<close>

definition clamped :: "algo_config \<Rightarrow> pyfloat \<Rightarrow> bool" where
  "clamped cfg s = (\<exists>r. s = Fin r \<and> score_min cfg \<le> r \<and> r \<le> score_max cfg)"

definition smoothed_clamped :: "algo_config \<Rightarrow> pyfloat \<Rightarrow> bool" where
  "smoothed_clamped cfg s =
     (\<exists>r. score_min cfg \<le> r \<and> r \<le> score_max cfg \<and>
          (s = Fin r \<or> s = round64 (r + persistence_bonus cfg)
           \<or> s = round64 (r - switch_penalty cfg)))"

text \<open>
  Invariants of the pipeline stages: canonical frames carry their index and exactly the
  player ids \<open>P\<close>; the edges of a built graph start at a node and carry the features
  that the summary scan reads; every node position of a graph satisfies a given property,
  in particular the condition of the grid search;
  every list stored in \<open>scored_per_player\<close> satisfies a given property, under distinct
  frame keys.
\<close>

definition canonical :: "string list \<Rightarrow> nat \<Rightarrow> frame list \<Rightarrow> bool" where
  "canonical P idx frames =
     (\<forall>i<length frames. frame_idx (frames ! i) = idx + i \<and> map fst (players (frames ! i)) = P)"

definition edge_ok :: "string set \<Rightarrow> graph_edge \<Rightarrow> bool" where
  "edge_ok K e =
     (src e \<in> K \<and>
      (case etype e of
         BALL_LINK \<Rightarrow> map_of (e_features e) ''ball_d'' \<noteq> None
       | _ \<Rightarrow> map_of (e_features e) ''d'' \<noteq> None))"

definition graph_ok :: "string list \<Rightarrow> frame_graph \<Rightarrow> bool" where
  "graph_ok P g = (map fst (nodes g) = P \<and> (\<forall>e\<in>set (edges g). edge_ok (set P) e))"

definition nodes_ok :: "(vec2 \<Rightarrow> bool) \<Rightarrow> frame_graph \<Rightarrow> bool" where
  "nodes_ok R g = (\<forall>e\<in>set (nodes g). R (n_pos (snd e)))"

definition graph_grid_ok :: "algo_config \<Rightarrow> pitch \<Rightarrow> frame_graph \<Rightarrow> bool" where
  "graph_grid_ok cfg ptch g =
     (enable_space_targets cfg \<longrightarrow>
        pitch_length ptch \<noteq> 0 \<and> nodes_ok (window_ok cfg ptch) g)"

definition stored ::
  "(scored_event list \<Rightarrow> bool) \<Rightarrow> (string, (nat, scored_event list) dict) dict \<Rightarrow> bool" where
  "stored Q spp = (\<forall>pd\<in>set spp. distinct (map fst (snd pd)) \<and> (\<forall>ke\<in>set (snd pd). Q (snd ke)))"

text \<open>All five candidate generators of the configuration are switched off.\<close>

definition all_generators_disabled :: "algo_config \<Rightarrow> bool" where
  "all_generators_disabled cfg =
     (\<not> enable_ball_focus cfg \<and> \<not> enable_marking_threats cfg \<and> \<not> enable_pass_targets cfg \<and>
      \<not> enable_space_targets cfg \<and> \<not> enable_goal_focus cfg)"

section \<open>Example inputs\<close>

definition demo_ball :: raw_ball where
  "demo_ball = \<lparr>ball_x = Some 50, ball_y = Some 34, owner_id = None\<rparr>"

definition no_ball :: raw_ball where
  "no_ball = \<lparr>ball_x = None, ball_y = Some 34, owner_id = None\<rparr>"

definition demo_raw :: "raw_frame list" where
  "demo_raw =
     [\<lparr>rf_id = ''f0'', player_pos = [(''a'', (40, 34)), (''b'', (60, 34))], ball = demo_ball,
       rf_note = []\<rparr>,
      \<lparr>rf_id = ''f1'', player_pos = [(''a'', (42, 34)), (''z'', (1, 1))], ball = no_ball,
       rf_note = []\<rparr>]"

definition demo_frames :: "frame list" where
  "demo_frames =
     [\<lparr>frame_idx = 0, players = [(''a'', (40, 34)), (''b'', (60, 34))], ball_pos = (50, 34),
       ball_owner_id = None, fr_note = []\<rparr>,
      \<lparr>frame_idx = 1, players = [(''a'', (42, 34)), (''b'', (60, 34))], ball_pos = (50, 34),
       ball_owner_id = None, fr_note = []\<rparr>]"

definition demo_bad_raw :: "raw_frame list" where
  "demo_bad_raw =
     [\<lparr>rf_id = ''f0'', player_pos = [(''a'', (40, 34))], ball = no_ball, rf_note = []\<rparr>,
      \<lparr>rf_id = ''f1'', player_pos = [(''a'', (42, 34))], ball = demo_ball, rf_note = []\<rparr>]"

text \<open>Scored events of one player over four frames, with empty frames 0 and 2.\<close>

definition ev_ball :: "real \<Rightarrow> scored_event" where
  "ev_ball s =
     \<lparr>name = ''BALL_NEARBY'', score = Fin s,
      focus = \<lparr>target_type = BALL, anchor = (50, 34), target_player_id = None,
                tag = Some ''ball''\<rparr>,
      reasons = [''ball_d=1.00''], meta = []\<rparr>"

definition ev_goal :: "real \<Rightarrow> scored_event" where
  "ev_goal s =
     \<lparr>name = ''GOAL'', score = Fin s,
      focus = \<lparr>target_type = GOAL, anchor = (100, 34), target_player_id = None,
                tag = Some ''goal''\<rparr>,
      reasons = [''goal_d=50.00''], meta = []\<rparr>"

definition demo_scored :: "(nat, scored_event list) dict" where
  "demo_scored = [(0, []), (1, [ev_ball 3, ev_goal 2]), (2, []), (3, [ev_ball 1, ev_goal 3])]"

text \<open>
  Two frames of one player whose adjusted scores tie after rounding: the carried primary
  is the ball event of frame 0; at frame 1 the goal event scores 5.75 and the ball event
  \<open>3.5 + 2^-51\<close> (a binary64 number), a margin below
  \<open>switch_penalty + persistence_bonus = 2.25\<close>.
\<close>

definition tie_config :: algo_config where
  "tie_config = default_config\<lparr>persistence_bonus := 3 / 4\<rparr>"

definition near_tie :: real where
  "near_tie = 7 / 2 + 1 / 2 ^ 51"

definition tie_scored :: "(nat, scored_event list) dict" where
  "tie_scored = [(0, [ev_ball 1]), (1, [ev_goal (23 / 4), ev_ball near_tie])]"

text \<open>
  Scenario A of the spec: two players of one team (so no opponents), one ball resting at
  (50, 34) over three frames, on a 100 x 68 pitch, with the default configuration.
\<close>

definition scenario_ball :: raw_ball where
  "scenario_ball = \<lparr>ball_x = Some 50, ball_y = Some 34, owner_id = None\<rparr>"

definition scenario_a_raw :: "raw_frame list" where
  "scenario_a_raw =
     [\<lparr>rf_id = ''f0'', player_pos = [(''a'', (40, 34)), (''b'', (60, 34))],
       ball = scenario_ball, rf_note = []\<rparr>,
      \<lparr>rf_id = ''f1'', player_pos = [(''a'', (40, 34)), (''b'', (60, 34))],
       ball = scenario_ball, rf_note = []\<rparr>,
      \<lparr>rf_id = ''f2'', player_pos = [(''a'', (40, 34)), (''b'', (60, 34))],
       ball = scenario_ball, rf_note = []\<rparr>]"

definition scenario_a_meta :: tactic_meta where
  "scenario_a_meta =
     \<lparr>tactic_id = ''scenario_a'', title = ''Scenario A'',
      meta_pitch = \<lparr>pitch_length = 100, pitch_width = 68\<rparr>,
      meta_players =
        [(''a'', \<lparr>pm_id = ''a'', pm_team = ''A'', pm_label = ''1'', pm_role = []\<rparr>),
         (''b'', \<lparr>pm_id = ''b'', pm_team = ''A'', pm_label = ''2'', pm_role = []\<rparr>)]\<rparr>"

definition zone_target :: "vec2 \<Rightarrow> focus_target" where
  "zone_target a = \<lparr>target_type = ZONE, anchor = a, target_player_id = None, tag = Some ''space''\<rparr>"

definition ball_target :: "vec2 \<Rightarrow> focus_target" where
  "ball_target a = \<lparr>target_type = BALL, anchor = a, target_player_id = None, tag = Some ''ball''\<rparr>"

text \<open>
  The default configuration with a zero grid step, with a positive grid step that is
  absorbed by the float addition \<open>16.0 + 2^-60 = 16.0\<close>, and with all generators disabled.
\<close>

definition stalled_config :: algo_config where
  "stalled_config = default_config\<lparr>space_grid_dy := 0\<rparr>"

definition tiny_step :: real where
  "tiny_step = 1 / 2 ^ 60"

definition absorbed_config :: algo_config where
  "absorbed_config = default_config\<lparr>space_grid_dy := tiny_step\<rparr>"

definition no_generators_config :: algo_config where
  "no_generators_config =
     default_config\<lparr>enable_ball_focus := False, enable_pass_targets := False,
                     enable_marking_threats := False, enable_space_targets := False,
                     enable_goal_focus := False\<rparr>"

definition scenario_a_frames :: "frame list" where
  "scenario_a_frames =
     map (\<lambda>i. \<lparr>frame_idx = i, players = [(''a'', (40, 34)), (''b'', (60, 34))],
                ball_pos = (50, 34), ball_owner_id = None, fr_note = []\<rparr>) [0, 1, 2]"

definition scenario_a_teams :: "(string, string) dict" where
  "scenario_a_teams = [(''a'', ''A''), (''b'', ''A'')]"

definition scenario_a_roles :: "(string, string) dict" where
  "scenario_a_roles = [(''a'', []), (''b'', [])]"

section \<open>Properties of binary64 rounding\<close>

subsection \<open>Rounding half to even\<close>

lemma rhe_bounds: "of_int (round_half_even v) - 1 / 2 \<le> v \<and> v \<le> of_int (round_half_even v) + 1 / 2"
  unfolding round_half_even_def Let_def by (auto; linarith)

lemma rhe_err: "\<bar>of_int (round_half_even v) - v\<bar> \<le> 1 / 2"
  using rhe_bounds [of v] by linarith

lemma rhe_of_int [simp]: "round_half_even (of_int k) = k"
  by (simp add: round_half_even_def)

lemma rhe_numeral [simp]: "round_half_even (numeral n) = numeral n"
  using rhe_of_int [of "numeral n"] by simp

lemma rhe_0 [simp]: "round_half_even 0 = 0"
  using rhe_of_int [of 0] by simp

lemma rhe_mono: "a \<le> b \<Longrightarrow> round_half_even a \<le> round_half_even b"
proof -
  assume ab: "a \<le> b"
  have fl: "\<lfloor>a\<rfloor> \<le> \<lfloor>b\<rfloor>" using ab by (rule floor_mono)
  show ?thesis
  proof (cases "\<lfloor>a\<rfloor> = \<lfloor>b\<rfloor>")
    case True
    then have "a - of_int \<lfloor>a\<rfloor> \<le> b - of_int \<lfloor>b\<rfloor>" using ab by simp
    with True show ?thesis unfolding round_half_even_def Let_def by auto
  next
    case False
    with fl have "\<lfloor>a\<rfloor> + 1 \<le> \<lfloor>b\<rfloor>" by simp
    moreover have "round_half_even a \<le> \<lfloor>a\<rfloor> + 1" unfolding round_half_even_def Let_def by auto
    moreover have "\<lfloor>b\<rfloor> \<le> round_half_even b" unfolding round_half_even_def Let_def by auto
    ultimately show ?thesis by linarith
  qed
qed

lemma rhe_neg: "round_half_even (- v) = - round_half_even v"
proof (cases "v = of_int \<lfloor>v\<rfloor>")
  case True
  then obtain k where "v = of_int k" by metis
  then have "- v = of_int (- k)" by simp
  then show ?thesis using \<open>v = of_int k\<close> by (metis rhe_of_int)
next
  case False
  then have fl: "\<lfloor>- v\<rfloor> = - \<lfloor>v\<rfloor> - 1"
    by (metis Ints_of_int ceiling_altdef ceiling_def diff_minus_eq_add floor_of_int minus_diff_eq of_int_floor_cancel uminus_add_conv_diff minus_minus)
  let ?f = "\<lfloor>v\<rfloor>"
  have r: "- v - of_int (- ?f - 1) = 1 - (v - of_int ?f)" by simp
  have ev: "even (- ?f - 1) \<longleftrightarrow> \<not> even ?f" by simp
  show ?thesis
    unfolding round_half_even_def Let_def fl r ev
    by (auto simp: algebra_simps)
qed

subsection \<open>Binades, monotonicity and error of the rounding\<close>

lemma ulp_pos [simp]: "0 < ulp x"
  by (simp add: ulp_def)

lemma ulp_nonneg [simp]: "0 \<le> ulp x"
  by (simp add: ulp_def)

lemma ulp_neq0 [simp]: "ulp x \<noteq> 0"
  by (simp add: ulp_def)

lemma binade_ge: "- 1022 \<le> binade x"
proof (cases "\<bar>x\<bar> < 2 powr (- 1022)")
  case True
  then show ?thesis by (simp add: binade_def)
next
  case False
  then have le: "2 powr (- 1022) \<le> \<bar>x\<bar>" by simp
  then have pos: "0 < \<bar>x\<bar>" using powr_gt_zero [of 2 "- 1022"] by linarith
  have "- 1022 \<le> log 2 \<bar>x\<bar>" using le pos by (simp add: le_log_iff)
  then have "- 1022 \<le> \<lfloor>log 2 \<bar>x\<bar>\<rfloor>" by (simp add: le_floor_iff)
  with False show ?thesis by (simp add: binade_def)
qed

lemma binade_minus [simp]: "binade (- x) = binade x"
  by (simp add: binade_def)

lemma ulp_minus [simp]: "ulp (- x) = ulp x"
  by (simp add: ulp_def)

lemma binade_bounds:
  assumes "2 powr (- 1022) \<le> \<bar>x\<bar>"
  shows "2 powr of_int (binade x) \<le> \<bar>x\<bar>" and "\<bar>x\<bar> < 2 powr (of_int (binade x) + 1)"
proof -
  have pos: "0 < \<bar>x\<bar>" using assms powr_gt_zero [of 2 "- 1022"] by linarith
  have b: "binade x = \<lfloor>log 2 \<bar>x\<bar>\<rfloor>" using assms by (simp add: binade_def)
  have "of_int (binade x) \<le> log 2 \<bar>x\<bar>" unfolding b by simp
  then show "2 powr of_int (binade x) \<le> \<bar>x\<bar>"
    using le_log_iff [of 2 "\<bar>x\<bar>" "of_int (binade x)"] pos by simp
  have "log 2 \<bar>x\<bar> < of_int (binade x) + 1" unfolding b by linarith
  then show "\<bar>x\<bar> < 2 powr (of_int (binade x) + 1)"
    using log_less_iff [of 2 "\<bar>x\<bar>" "of_int (binade x) + 1"] pos by simp
qed

lemma binade_eqI:
  assumes "2 powr of_int e \<le> \<bar>x\<bar>" "\<bar>x\<bar> < 2 powr (of_int e + 1)" "- 1022 \<le> e"
  shows "binade x = e"
proof -
  have pos: "0 < \<bar>x\<bar>" using assms(1) powr_gt_zero [of 2 "of_int e"] by linarith
  have "(2::real) powr (- 1022) \<le> 2 powr of_int e" using assms(3) by (intro powr_mono) simp_all
  with assms(1) have n: "\<not> \<bar>x\<bar> < 2 powr (- 1022)" by linarith
  have "of_int e \<le> log 2 \<bar>x\<bar>"
    using le_log_iff [of 2 "\<bar>x\<bar>" "of_int e"] assms(1) pos by simp
  moreover have "log 2 \<bar>x\<bar> < of_int e + 1"
    using log_less_iff [of 2 "\<bar>x\<bar>" "of_int e + 1"] assms(2) pos by simp
  ultimately have "\<lfloor>log 2 \<bar>x\<bar>\<rfloor> = e" by (intro floor_unique) simp_all
  with n show ?thesis by (simp add: binade_def)
qed

lemma rnd_minus: "rnd (- x) = - rnd x"
  by (simp add: rnd_def rhe_neg)

lemma rnd_0 [simp]: "rnd 0 = 0"
  by (simp add: rnd_def)

lemma rnd_nonneg: "0 \<le> x \<Longrightarrow> 0 \<le> rnd x"
proof -
  assume "0 \<le> x"
  then have "0 \<le> x / ulp x" by simp
  from rhe_mono [OF this] have "0 \<le> round_half_even (x / ulp x)"
    using rhe_of_int [of 0] by simp
  then show ?thesis by (simp add: rnd_def)
qed

lemma rnd_upper:
  assumes "0 \<le> x"
  shows "rnd x \<le> 2 powr (of_int (binade x) + 1)"
proof -
  have "x < 2 powr (of_int (binade x) + 1)"
  proof (cases "\<bar>x\<bar> < 2 powr (- 1022)")
    case True
    then have b: "binade x = - 1022" by (simp add: binade_def)
    have le: "(2::real) powr (- 1022) \<le> 2 powr (- 1021)" by (intro powr_mono) simp_all
    have "x < 2 powr (- 1021)" using True assms le by linarith
    then show ?thesis by (simp add: b)
  next
    case False
    then have "2 powr (- 1022) \<le> \<bar>x\<bar>" by simp
    from binade_bounds(2) [OF this] show ?thesis using assms by simp
  qed
  then have "x / ulp x < 2 powr (of_int (binade x) + 1) / ulp x"
    by (simp add: divide_strict_right_mono)
  also have "2 powr (of_int (binade x) + 1) / ulp x = 2 powr 53"
    by (simp add: ulp_def powr_diff [symmetric])
  also have "(2::real) powr 53 = of_int (2 ^ 53)" by simp
  finally have "x / ulp x \<le> of_int (2 ^ 53)" by simp
  from rhe_mono [OF this] have "round_half_even (x / ulp x) \<le> 2 ^ 53" by simp
  then have "of_int (round_half_even (x / ulp x)) \<le> (2 ^ 53 :: real)"
    by (metis of_int_le_iff of_int_numeral of_int_power)
  then have "rnd x \<le> 2 ^ 53 * ulp x" by (simp add: rnd_def)
  also have "2 ^ 53 * ulp x = 2 powr 53 * 2 powr (of_int (binade x) - 52)" by (simp add: ulp_def)
  also have "\<dots> = 2 powr (53 + (of_int (binade x) - 52))" by (rule powr_add [symmetric])
  also have "53 + (of_int (binade x) - 52) = (of_int (binade x) + 1 :: real)" by simp
  finally show ?thesis .
qed

lemma rnd_lower:
  assumes "2 powr (- 1022) \<le> x"
  shows "2 powr of_int (binade x) \<le> rnd x"
proof -
  have pos: "0 < x" using assms powr_gt_zero [of 2 "- 1022"] by linarith
  have "2 powr of_int (binade x) \<le> x" using binade_bounds(1) [of x] assms pos by simp
  then have "2 powr of_int (binade x) / ulp x \<le> x / ulp x" by (simp add: divide_right_mono)
  moreover have "2 powr of_int (binade x) / ulp x = 2 powr 52"
    by (simp add: ulp_def powr_diff [symmetric])
  moreover have "(2::real) powr 52 = of_int (2 ^ 52)" by simp
  ultimately have "of_int (2 ^ 52) \<le> x / ulp x" by simp
  from rhe_mono [OF this] have "2 ^ 52 \<le> round_half_even (x / ulp x)" by simp
  then have "(2 ^ 52 :: real) \<le> of_int (round_half_even (x / ulp x))"
    by (metis of_int_le_iff of_int_numeral of_int_power)
  then have "2 ^ 52 * ulp x \<le> rnd x" by (simp add: rnd_def)
  moreover have "2 ^ 52 * ulp x = 2 powr 52 * 2 powr (of_int (binade x) - 52)"
    by (simp add: ulp_def)
  moreover have "2 powr 52 * 2 powr (of_int (binade x) - 52) = (2::real) powr (52 + (of_int (binade x) - 52))"
    by (rule powr_add [symmetric])
  moreover have "52 + (of_int (binade x) - 52) = (of_int (binade x) :: real)" by simp
  ultimately show ?thesis by simp
qed

lemma binade_mono_nonneg:
  assumes "0 \<le> x" "x \<le> y"
  shows "binade x \<le> binade y"
proof (cases "\<bar>x\<bar> < 2 powr (- 1022)")
  case True
  then show ?thesis using binade_ge [of y] by (simp add: binade_def)
next
  case False
  then have x: "2 powr (- 1022) \<le> x" using assms(1) by simp
  then have y: "2 powr (- 1022) \<le> y" using assms(2) by simp
  have pos: "0 < x" using x powr_gt_zero [of 2 "- 1022"] by linarith
  have "log 2 x \<le> log 2 y" using pos assms(2) by simp
  then have "\<lfloor>log 2 x\<rfloor> \<le> \<lfloor>log 2 y\<rfloor>" by (rule floor_mono)
  with x y pos assms show ?thesis by (simp add: binade_def)
qed

lemma rnd_mono_nonneg:
  assumes "0 \<le> x" "x \<le> y"
  shows "rnd x \<le> rnd y"
proof (cases "binade x = binade y")
  case True
  then have u: "ulp x = ulp y" by (simp add: ulp_def)
  have "x / ulp y \<le> y / ulp y" using assms(2) by (simp add: divide_right_mono)
  from rhe_mono [OF this] show ?thesis by (simp add: rnd_def u)
next
  case False
  with binade_mono_nonneg [OF assms] have lt: "binade x < binade y" by simp
  then have "- 1022 < binade y" using binade_ge [of x] by simp
  then have ny: "2 powr (- 1022) \<le> y" using assms by (auto simp: binade_def split: if_splits)
  have "rnd x \<le> 2 powr (of_int (binade x) + 1)" using rnd_upper [OF assms(1)] .
  also have "\<dots> \<le> 2 powr of_int (binade y)" using lt by (intro powr_mono) simp_all
  also have "\<dots> \<le> rnd y" using rnd_lower [OF ny] .
  finally show ?thesis .
qed

lemma rnd_mono:
  assumes "x \<le> y"
  shows "rnd x \<le> rnd y"
proof -
  consider "0 \<le> x" | "y \<le> 0" | "x < 0" "0 < y" by linarith
  then show ?thesis
  proof cases
    case 1
    then show ?thesis using assms by (rule rnd_mono_nonneg)
  next
    case 2
    then have "rnd (- y) \<le> rnd (- x)" using assms by (intro rnd_mono_nonneg) simp_all
    then show ?thesis by (simp add: rnd_minus)
  next
    case 3
    have "0 \<le> rnd (- x)" using 3 by (intro rnd_nonneg) simp
    then have "rnd x \<le> 0" by (simp add: rnd_minus)
    moreover have "0 \<le> rnd y" using 3 by (intro rnd_nonneg) simp
    ultimately show ?thesis by simp
  qed
qed

lemma round64_mono:
  assumes "x \<le> y"
  shows "\<not> flt (round64 y) (round64 x)"
proof -
  have m: "rnd x \<le> rnd y" using assms by (rule rnd_mono)
  have px: "0 \<le> rnd x" if "0 < x" using that by (intro rnd_nonneg) simp
  have ny: "rnd y \<le> 0" if "y \<le> 0"
  proof -
    have "0 \<le> rnd (- y)" using that by (intro rnd_nonneg) simp
    then show ?thesis by (simp add: rnd_minus)
  qed
  show ?thesis
    using m px ny assms unfolding round64_def
    by (auto split: if_splits)
qed

lemma rnd_err: "\<bar>rnd x - x\<bar> \<le> ulp x / 2"
proof -
  have "\<bar>rnd x - x\<bar> = \<bar>of_int (round_half_even (x / ulp x)) - x / ulp x\<bar> * ulp x"
  proof -
    have "rnd x - x = (of_int (round_half_even (x / ulp x)) - x / ulp x) * ulp x"
      by (simp add: rnd_def algebra_simps)
    then show ?thesis by (simp add: abs_mult)
  qed
  also have "\<dots> \<le> 1 / 2 * ulp x"
    by (intro mult_right_mono rhe_err) simp
  finally show ?thesis by simp
qed

lemma ulp_le: "ulp x \<le> max (\<bar>x\<bar> / 2 ^ 52) (1 / 2 ^ 1074)"
proof (cases "\<bar>x\<bar> < 2 powr (- 1022)")
  case True
  then have "ulp x = 2 powr (- 1074)" by (simp add: ulp_def binade_def)
  also have "\<dots> = 1 / 2 ^ 1074" by (simp add: powr_minus_divide)
  finally show ?thesis by simp
next
  case False
  then have "2 powr of_int (binade x) \<le> \<bar>x\<bar>" using binade_bounds(1) [of x] by simp
  moreover have "ulp x = 2 powr of_int (binade x) / 2 ^ 52"
    by (simp add: ulp_def powr_diff)
  ultimately have "ulp x \<le> \<bar>x\<bar> / 2 ^ 52" by (simp add: divide_right_mono)
  then show ?thesis by simp
qed

lemma rnd_advance:
  assumes "1 / 2 ^ 1074 \<le> d" "\<bar>y\<bar> \<le> d * 2 ^ 52"
  shows "y < rnd (y + d)"
proof -
  have "(0::real) < 1 / 2 ^ 1074" by simp
  then have d: "0 < d" using assms(1) by linarith
  have "\<bar>y + d\<bar> \<le> d * 2 ^ 52 + d" using assms(2) d by linarith
  then have "\<bar>y + d\<bar> / 2 ^ 52 \<le> (d * 2 ^ 52 + d) / 2 ^ 52" by (simp add: divide_right_mono)
  also have "\<dots> = d + d / 2 ^ 52" by (simp add: add_divide_distrib)
  finally have a: "\<bar>y + d\<bar> / 2 ^ 52 \<le> d + d / 2 ^ 52" .
  have "d / 2 ^ 52 \<le> d / 2" using d by (intro divide_left_mono) simp_all
  with a have a': "\<bar>y + d\<bar> / 2 ^ 52 < 2 * d" using d by linarith
  have "ulp (y + d) < 2 * d" using ulp_le [of "y + d"] a' assms(1) d by linarith
  with rnd_err [of "y + d"] show ?thesis by linarith
qed

lemma ulp_grid: "\<exists>n::nat. ulp x = 2 ^ n / 2 ^ 1074"
proof -
  define n where "n = nat (binade x + 1022)"
  have "of_int (binade x) - 52 = real n - 1074" using binade_ge [of x] by (simp add: n_def)
  then have "2 powr (of_int (binade x) - 52) = (2::real) powr (real n - 1074)" by (simp only:)
  then have "ulp x = 2 powr (real n - 1074)" by (simp only: ulp_def of_int_diff of_int_numeral)
  also have "\<dots> = 2 powr real n / 2 powr 1074" by (simp add: powr_diff)
  also have "\<dots> = 2 ^ n / 2 ^ 1074" by (simp add: powr_realpow)
  finally show ?thesis by blast
qed

lemma rnd_grid: "\<exists>k::int. rnd x = of_int k / 2 ^ 1074"
proof -
  from ulp_grid [of x] obtain n :: nat where n: "ulp x = 2 ^ n / 2 ^ 1074" by blast
  have "rnd x = of_int (round_half_even (x / ulp x) * 2 ^ n) / 2 ^ 1074"
    by (simp add: rnd_def n)
  then show ?thesis by blast
qed

subsection \<open>Evaluation\<close>

lemma rnd_eq:
  assumes "2 powr of_int e \<le> \<bar>x\<bar>" "\<bar>x\<bar> < 2 powr (of_int e + 1)" "- 1022 \<le> e"
  shows "rnd x = of_int (round_half_even (x / 2 powr (of_int e - 52))) * 2 powr (of_int e - 52)"
  using binade_eqI [OF assms] by (simp add: rnd_def ulp_def)

lemma rnd_rep:
  fixes m :: int
  assumes "\<bar>m\<bar> < 2 ^ 53" "- 1074 \<le> q"
  shows "rnd (of_int m * 2 powr of_int q) = of_int m * 2 powr of_int q"
proof -
  let ?v = "of_int m * 2 powr of_int q :: real"
  have b: "binade ?v \<le> q + 52"
  proof (cases "\<bar>?v\<bar> < 2 powr (- 1022)")
    case True
    then show ?thesis using assms(2) by (simp add: binade_def)
  next
    case False
    then have n: "2 powr (- 1022) \<le> \<bar>?v\<bar>" by simp
    have "\<bar>of_int m :: real\<bar> < 2 ^ 53" using assms(1)
      by (metis of_int_abs of_int_less_iff of_int_numeral of_int_power)
    then have "\<bar>?v\<bar> < 2 ^ 53 * 2 powr of_int q"
      by (simp add: abs_mult)
    also have "(2 ^ 53 :: real) = 2 powr 53" by simp
    also have "2 powr 53 * 2 powr of_int q = (2::real) powr (53 + of_int q)"
      by (rule powr_add [symmetric])
    finally have "2 powr of_int (binade ?v) < (2::real) powr (53 + of_int q)"
      using binade_bounds(1) [OF n] by linarith
    then have "of_int (binade ?v) < (53 + of_int q :: real)" by simp
    then have "binade ?v < 53 + q" by linarith
    then show ?thesis by simp
  qed
  define n where "n = nat (q + 52 - binade ?v)"
  have e: "of_int q - (of_int (binade ?v) - 52) = real n" using b by (simp add: n_def)
  have "?v / ulp ?v = of_int m * (2 powr of_int q / 2 powr (of_int (binade ?v) - 52))"
    by (simp add: ulp_def)
  also have "2 powr of_int q / 2 powr (of_int (binade ?v) - 52)
               = (2::real) powr (of_int q - (of_int (binade ?v) - 52))"
    by (rule powr_diff [symmetric])
  also have "\<dots> = 2 powr real n" by (simp only: e)
  also have "\<dots> = 2 ^ n" by (simp add: powr_realpow)
  finally have "?v / ulp ?v = of_int (m * 2 ^ n)" by simp
  then have "round_half_even (?v / ulp ?v) = m * 2 ^ n" by (simp only: rhe_of_int)
  then have "rnd ?v = of_int (m * 2 ^ n) * ulp ?v" by (simp add: rnd_def)
  also have "\<dots> = (?v / ulp ?v) * ulp ?v" using \<open>?v / ulp ?v = of_int (m * 2 ^ n)\<close> by simp
  also have "\<dots> = ?v" by simp
  finally show ?thesis .
qed

lemma rnd_of_int: "\<bar>m\<bar> < 2 ^ 53 \<Longrightarrow> rnd (of_int m) = of_int m"
  using rnd_rep [of m 0] by simp

lemma round64_of_int:
  assumes "\<bar>m\<bar> < 2 ^ 53"
  shows "round64 (of_int m) = Fin (of_int m)"
proof -
  have "\<bar>of_int m :: real\<bar> < 2 ^ 53" using assms
    by (metis of_int_abs of_int_less_iff of_int_numeral of_int_power)
  moreover have "(2 ^ 53 :: real) \<le> 2 ^ 1024" by (intro power_increasing) simp_all
  ultimately show ?thesis using rnd_of_int [OF assms] by (simp add: round64_def)
qed

lemma round64_numeral:
  "numeral n < (2 ^ 53 :: int) \<Longrightarrow> round64 (numeral n) = Fin (numeral n)"
  using round64_of_int [of "numeral n"] by simp

lemma round64_0: "round64 0 = Fin 0"
  using round64_of_int [of 0] by simp

lemma round64_eq:
  assumes "2 powr of_int e \<le> \<bar>x\<bar>" "\<bar>x\<bar> < 2 powr (of_int e + 1)" "- 1022 \<le> e" "e < 1023"
  shows "round64 x = Fin (of_int (round_half_even (x / 2 powr (of_int e - 52))) * 2 powr (of_int e - 52))"
proof -
  have b: "binade x = e" using binade_eqI [OF assms(1,2,3)] .
  have pos: "0 < \<bar>x\<bar>" using assms(1) powr_gt_zero [of 2 "of_int e"] by linarith
  have "\<bar>rnd x\<bar> = rnd \<bar>x\<bar>"
  proof (cases "0 \<le> x")
    case True
    then show ?thesis using rnd_nonneg [of x] by simp
  next
    case False
    then have "0 \<le> rnd (- x)" by (intro rnd_nonneg) simp
    then show ?thesis using False by (simp add: rnd_minus)
  qed
  also have "\<dots> \<le> 2 powr (of_int (binade \<bar>x\<bar>) + 1)" by (intro rnd_upper) simp
  also have "binade \<bar>x\<bar> = e" using b by (simp add: binade_def)
  also have "(2::real) powr (of_int e + 1) \<le> 2 powr 1023" using assms(4) by (intro powr_mono) simp_all
  also have "(2::real) powr 1023 < 2 ^ 1024" by simp
  finally have "\<bar>rnd x\<bar> < 2 ^ 1024" .
  then show ?thesis using rnd_eq [OF assms(1,2,3)] by (simp add: round64_def)
qed

lemma r_54_5: "round64 (54 / 5) = Fin (3039929748475085 / 281474976710656)"
  by (subst round64_eq [where e = 3]) (simp_all add: round_half_even_def powr_minus_divide)

subsection \<open>Steps of a loop variable\<close>

lemma rnd_pos_D:
  assumes "0 < rnd x"
  shows "0 < x"
proof (rule ccontr)
  assume "\<not> 0 < x"
  then have "0 \<le> rnd (- x)"
    by (intro rnd_nonneg) simp
  with assms show False
    by (simp add: rnd_minus)
qed

lemma round64_step:
  assumes "1 / 2 ^ 1074 \<le> d" "\<bar>y\<bar> \<le> d * 2 ^ 52" "- (2 ^ 1023) \<le> y"
  shows "round64 (y + d) = PInf \<or>
         (\<exists>y'. round64 (y + d) = Fin y' \<and> y < y' \<and> (\<exists>k::int. y' = of_int k / 2 ^ 1074))"
proof -
  have adv: "y < rnd (y + d)"
    using assms(1,2) by (rule rnd_advance)
  have "(2::real) ^ 1023 \<le> 2 ^ 1024"
    by (intro power_increasing) simp_all
  with adv assms(3) have low: "- (2 ^ 1024) < rnd (y + d)"
    by linarith
  show ?thesis
  proof (cases "2 ^ 1024 \<le> \<bar>rnd (y + d)\<bar>")
    case True
    with low have "0 < rnd (y + d)"
      by (simp add: abs_if split: if_splits)
    then have "0 < y + d"
      by (rule rnd_pos_D)
    with True show ?thesis
      by (simp add: round64_def)
  next
    case False
    then have "round64 (y + d) = Fin (rnd (y + d))"
      by (simp add: round64_def)
    with adv rnd_grid [of "y + d"] show ?thesis
      by blast
  qed
qed

lemma grid_next:
  fixes k k' :: int
  assumes "of_int k / 2 ^ 1074 < (of_int k' / 2 ^ 1074 :: real)"
  shows "of_int k / 2 ^ 1074 + 1 / 2 ^ 1074 \<le> (of_int k' / 2 ^ 1074 :: real)"
proof -
  from assms have "(of_int k :: real) < of_int k'"
    by (simp add: divide_less_cancel)
  then have "k + 1 \<le> k'"
    by simp
  then have "(of_int (k + 1) :: real) \<le> of_int k'"
    by (simp only: of_int_le_iff)
  then have "of_int (k + 1) / 2 ^ 1074 \<le> (of_int k' / 2 ^ 1074 :: real)"
    by (simp add: divide_right_mono)
  then show ?thesis
    by (simp add: add_divide_distrib)
qed

lemma threshold_nonneg: "0 \<le> rnd (1 / 1000)"
  by (rule rnd_nonneg) simp

section \<open>Properties of frame canonicalization\<close>

lemma fill_players_Inr:
  "fill_players pids rpos idx plys lastp = Inr (plys', lastp') \<Longrightarrow>
     map_of plys' pid =
       (if pid \<in> set pids
        then (case map_of rpos pid of Some p \<Rightarrow> Some p | None \<Rightarrow> map_of lastp pid)
        else map_of plys pid) \<and>
     map_of lastp' pid =
       (case map_of rpos pid of
          Some p \<Rightarrow> (if pid \<in> set pids then Some p else map_of lastp pid)
        | None \<Rightarrow> map_of lastp pid)"
proof (induction pids arbitrary: plys lastp)
  case Nil
  then show ?case by (auto split: option.splits)
next
  case (Cons q pids)
  show ?case
  proof (cases "map_of rpos q")
    case None
    then obtain p where lq: "map_of lastp q = Some p"
      and rec: "fill_players pids rpos idx (AList.update q p plys) lastp = Inr (plys', lastp')"
      using Cons.prems by (auto split: option.splits)
    from Cons.IH [OF rec] None lq show ?thesis
      by (auto simp: update_conv' split: option.splits)
  next
    case (Some pos)
    then have rec: "fill_players pids rpos idx (AList.update q pos plys) (AList.update q pos lastp)
                      = Inr (plys', lastp')"
      using Cons.prems by simp
    from Cons.IH [OF rec] Some show ?thesis
      by (auto simp: update_conv' split: option.splits)
  qed
qed

lemma fill_players_ok:
  "\<forall>pid \<in> set pids. map_of rpos pid \<noteq> None \<or> map_of lastp pid \<noteq> None \<Longrightarrow>
     \<exists>r. fill_players pids rpos idx plys lastp = Inr r"
proof (induction pids arbitrary: plys lastp)
  case Nil
  then show ?case by simp
next
  case (Cons q pids)
  show ?case
  proof (cases "map_of rpos q")
    case None
    then obtain p where lq: "map_of lastp q = Some p" using Cons.prems by auto
    have "\<exists>r. fill_players pids rpos idx (AList.update q p plys) lastp = Inr r"
      using Cons.prems by (intro Cons.IH) auto
    with None lq show ?thesis by simp
  next
    case (Some pos)
    have "\<exists>r. fill_players pids rpos idx (AList.update q pos plys) (AList.update q pos lastp) = Inr r"
      using Cons.prems by (intro Cons.IH) (auto simp: update_conv')
    with Some show ?thesis by simp
  qed
qed

lemma fill_players_same:
  assumes "fill_players pids rpos idx plys lastp = Inr (plys', lastp')" and "pid \<in> set pids"
  shows "map_of lastp' pid = map_of plys' pid"
  using fill_players_Inr [OF assms(1), of pid] assms(2) by (auto split: option.splits)

lemma canon_loop_Inr:
  "canon_loop rfs idx P acc lastp lb lo = Inr frames \<Longrightarrow>
     \<exists>new. frames = acc @ new \<and> length new = length rfs \<and>
       (\<forall>i<length rfs. \<forall>pid\<in>set P.
          map_of (players (new ! i)) pid =
            (case map_of (player_pos (rfs ! i)) pid of
               Some p \<Rightarrow> Some p
             | None \<Rightarrow> (if i = 0 then map_of lastp pid else map_of (players (new ! (i - 1))) pid)))"
proof (induction rfs arbitrary: idx acc lastp lb lo)
  case Nil
  then show ?case by simp
next
  case (Cons rf rfs)
  from Cons.prems obtain plys lastp' where
    fp: "fill_players P (player_pos rf) idx [] lastp = Inr (plys, lastp')"
    by (auto split: sum.splits)
  from Cons.prems fp obtain fr lb' lo' where
    rec: "canon_loop rfs (idx + 1) P (acc @ [fr]) lastp' lb' lo' = Inr frames"
    and fr: "players fr = plys"
    by (auto split: option.splits)
  from Cons.IH [OF rec] obtain new where
    new: "frames = (acc @ [fr]) @ new" "length new = length rfs"
    and ih: "\<forall>i<length rfs. \<forall>pid\<in>set P.
          map_of (players (new ! i)) pid =
            (case map_of (player_pos (rfs ! i)) pid of
               Some p \<Rightarrow> Some p
             | None \<Rightarrow> (if i = 0 then map_of lastp' pid else map_of (players (new ! (i - 1))) pid))"
    by blast
  have "\<forall>i<length (rf # rfs). \<forall>pid\<in>set P.
          map_of (players ((fr # new) ! i)) pid =
            (case map_of (player_pos ((rf # rfs) ! i)) pid of
               Some p \<Rightarrow> Some p
             | None \<Rightarrow> (if i = 0 then map_of lastp pid
                         else map_of (players ((fr # new) ! (i - 1))) pid))"
  proof (intro allI impI ballI)
    fix i pid assume i: "i < length (rf # rfs)" and pid: "pid \<in> set P"
    show "map_of (players ((fr # new) ! i)) pid =
            (case map_of (player_pos ((rf # rfs) ! i)) pid of
               Some p \<Rightarrow> Some p
             | None \<Rightarrow> (if i = 0 then map_of lastp pid
                         else map_of (players ((fr # new) ! (i - 1))) pid))"
    proof (cases i)
      case 0
      then show ?thesis
        using fill_players_Inr [OF fp, of pid] pid fr by simp
    next
      case (Suc k)
      then have k: "k < length rfs" using i by simp
      have "map_of lastp' pid = map_of (players fr) pid"
        using fill_players_same [OF fp pid] fr by simp
      with ih k pid Suc show ?thesis
        by (cases k) (auto split: option.splits)
    qed
  qed
  with new show ?case by (intro exI [of _ "fr # new"]) simp
qed

text \<open>
  Claim C6 (forward-fill correctness). Whenever canonicalization succeeds, for every player
  id of \<open>P\<close> and every frame index \<open>i\<close>: the canonical frame list has one frame per raw
  frame; a position present in raw frame \<open>i\<close> is taken over unchanged; and for \<open>i > 0\<close>
  a player absent from raw frame \<open>i\<close> has in canonical frame \<open>i\<close> exactly the position
  it has in canonical frame \<open>i - 1\<close>.
\<close>

theorem forward_fill_correct:
  assumes "canonicalize_frames raw_frames = Inr (frames, P)"
    and "pid \<in> set P" and "i < length raw_frames"
  shows "length frames = length raw_frames \<and>
         (\<forall>p. map_of (player_pos (raw_frames ! i)) pid = Some p \<longrightarrow>
              map_of (players (frames ! i)) pid = Some p) \<and>
         (0 < i \<and> map_of (player_pos (raw_frames ! i)) pid = None \<longrightarrow>
              map_of (players (frames ! i)) pid = map_of (players (frames ! (i - 1))) pid)"
proof -
  from assms(1) obtain rf rest where raw: "raw_frames = rf # rest"
    by (cases raw_frames) (auto simp: canonicalize_frames_def)
  from assms(1) raw have P: "P = map fst (player_pos rf)"
    and cl: "canon_loop raw_frames 0 P [] [] None None = Inr frames"
    by (auto simp: canonicalize_frames_def Let_def split: sum.splits)
  from canon_loop_Inr [OF cl] assms(2,3) show ?thesis
    by (auto split: option.splits)
qed

lemma demo_raw_canonical:
  "canonicalize_frames demo_raw = Inr (demo_frames, [''a'', ''b''])"
  by (simp add: canonicalize_frames_def demo_raw_def demo_frames_def demo_ball_def no_ball_def)

theorem forward_fill_correct_witness:
  "canonicalize_frames demo_raw = Inr (demo_frames, [''a'', ''b'']) \<and>
   ''b'' \<in> set [''a'', ''b''] \<and> 1 < length demo_raw \<and>
   map_of (player_pos (demo_raw ! 1)) ''b'' = None \<and>
   map_of (players (demo_frames ! 1)) ''b'' = map_of (players (demo_frames ! 0)) ''b'' \<and>
   map_of (players (demo_frames ! 1)) ''a'' = Some (42, 34)"
proof -
  have len: "1 < length demo_raw" by (simp add: demo_raw_def)
  have absent: "map_of (player_pos (demo_raw ! 1)) ''b'' = None"
    and present: "map_of (player_pos (demo_raw ! 1)) ''a'' = Some (42, 34)"
    by (simp_all add: demo_raw_def)
  from forward_fill_correct [OF demo_raw_canonical, of "''b''" 1] len absent
  have b: "map_of (players (demo_frames ! 1)) ''b'' = map_of (players (demo_frames ! 0)) ''b''"
    by simp
  from forward_fill_correct [OF demo_raw_canonical, of "''a''" 1] len present
  have a: "map_of (players (demo_frames ! 1)) ''a'' = Some (42, 34)"
    by simp
  from demo_raw_canonical len absent a b show ?thesis by simp
qed

lemma canon_loop_ok:
  "\<forall>pid\<in>set P. map_of lastp pid \<noteq> None \<Longrightarrow> lb \<noteq> None \<Longrightarrow>
     \<exists>fs. canon_loop rfs idx P acc lastp lb lo = Inr fs"
proof (induction rfs arbitrary: idx acc lastp lb lo)
  case Nil
  then show ?case by simp
next
  case (Cons rf rfs)
  from fill_players_ok [of P "player_pos rf" lastp idx "[]"] Cons.prems(1)
  obtain plys lastp' where
    fp: "fill_players P (player_pos rf) idx [] lastp = Inr (plys, lastp')"
    by (metis surj_pair)
  have dom': "\<forall>pid\<in>set P. map_of lastp' pid \<noteq> None"
    using fill_players_Inr [OF fp] Cons.prems(1) by (auto split: option.splits)
  obtain b where lb: "lb = Some b" using Cons.prems(2) by auto
  show ?case
  proof (cases "ball_x (ball rf)")
    case None
    then show ?thesis using fp lb Cons.IH [OF dom', of lb] by simp
  next
    case bx: (Some bx)
    show ?thesis
    proof (cases "ball_y (ball rf)")
      case None
      then show ?thesis using fp lb bx Cons.IH [OF dom', of lb] by simp
    next
      case (Some b2)
      then show ?thesis using fp bx Cons.IH [OF dom', of "Some (bx, b2)"] by simp
    qed
  qed
qed

lemma canonicalize_frames_cases:
  "canonicalize_frames raw_frames =
     (case raw_frames of
        [] \<Rightarrow> Inl (ValueError msg_no_frames)
      | rf # _ \<Rightarrow>
          if ball_missing rf then Inl (ValueError (msg_ball_missing 0))
          else canonicalize_frames raw_frames) \<and>
   (raw_frames \<noteq> [] \<and> \<not> ball_missing (hd raw_frames) \<longrightarrow>
      (\<exists>frames. canonicalize_frames raw_frames = Inr (frames, map fst (player_pos (hd raw_frames)))))"
proof (cases raw_frames)
  case Nil
  then show ?thesis by (simp add: canonicalize_frames_def)
next
  case (Cons rf rfs)
  define P where "P = map fst (player_pos rf)"
  have "\<forall>pid\<in>set P. map_of (player_pos rf) pid \<noteq> None \<or> map_of [] pid \<noteq> None"
    by (auto simp: P_def map_of_eq_None_iff)
  from fill_players_ok [OF this, of 0 "[]"] obtain plys lastp' where
    fp: "fill_players P (player_pos rf) 0 [] [] = Inr (plys, lastp')"
    by (metis surj_pair)
  have dom': "\<forall>pid\<in>set P. map_of lastp' pid \<noteq> None"
    using fill_players_Inr [OF fp] by (auto simp: P_def map_of_eq_None_iff split: option.splits)
  show ?thesis
  proof (cases "ball_missing rf")
    case True
    then show ?thesis using Cons fp
      by (auto simp: canonicalize_frames_def Let_def ball_missing_def P_def split: option.splits)
  next
    case False
    then obtain bx b2 where b: "ball_x (ball rf) = Some bx" "ball_y (ball rf) = Some b2"
      by (auto simp: ball_missing_def)
    from canon_loop_ok [OF dom', of "Some (bx, b2)"] obtain fs where
      "canon_loop rfs (0 + 1) P
         ([] @ [\<lparr>frame_idx = 0, players = plys, ball_pos = (bx, b2),
                 ball_owner_id = owner_id (ball rf), fr_note = rf_note rf\<rparr>])
         lastp' (Some (bx, b2)) (owner_id (ball rf)) = Inr fs"
      by blast
    then show ?thesis using Cons fp b False
      by (simp add: canonicalize_frames_def Let_def P_def)
  qed
qed

lemma list_all_upt_Suc_0: "list_all Q [0..<Suc i] \<Longrightarrow> Q 0"
  by (induction i) auto

lemma player_unfillable_never: "\<not> player_unfillable raw_frames"
proof (cases raw_frames)
  case Nil
  then show ?thesis by (simp add: player_unfillable_def)
next
  case (Cons rf rfs)
  have "\<not> list_all (\<lambda>j. map_of (player_pos ((rf # rfs) ! j)) pid = None) [0..<Suc i]"
    if "pid \<in> fst ` set (player_pos rf)" for pid i
  proof
    assume "list_all (\<lambda>j. map_of (player_pos ((rf # rfs) ! j)) pid = None) [0..<Suc i]"
    from list_all_upt_Suc_0 [OF this] that show False
      by (simp add: map_of_eq_None_iff)
  qed
  then show ?thesis using Cons
    by (auto simp: player_unfillable_def list_ex_iff)
qed

lemma ball_unresolved_iff:
  "ball_unresolved raw_frames \<longleftrightarrow> raw_frames \<noteq> [] \<and> ball_missing (hd raw_frames)"
proof (cases raw_frames)
  case Nil
  then show ?thesis by (simp add: ball_unresolved_def)
next
  case (Cons rf rfs)
  show ?thesis
  proof
    assume "ball_unresolved raw_frames"
    then obtain i where "list_all (\<lambda>j. ball_missing (raw_frames ! j)) [0..<Suc i]"
      by (auto simp: ball_unresolved_def list_ex_iff)
    from list_all_upt_Suc_0 [OF this]
    show "raw_frames \<noteq> [] \<and> ball_missing (hd raw_frames)" using Cons by simp
  next
    assume "raw_frames \<noteq> [] \<and> ball_missing (hd raw_frames)"
    then have a: "list_all (\<lambda>j. ball_missing (raw_frames ! j)) [0..<Suc 0]" using Cons by simp
    have b: "0 \<in> set [0..<length raw_frames]" using Cons by simp
    show "ball_unresolved raw_frames"
      unfolding ball_unresolved_def list_ex_iff by (rule bexI [of _ 0]) (use a b in simp_all)
  qed
qed

text \<open>
  Claim C7 (fail-fast on bad-shaped input). \<open>canonicalize_frames\<close> returns an error, and
  hence no frames at all, exactly when the input is bad-shaped in the spec's sense (empty
  list, or a player of \<open>P\<close> without any position up to some frame, or a ball position
  missing with none established before). The empty list gives the "No frames provided."
  error; every other bad-shaped input gives the ball error, whose message carries the
  offending frame index (always frame 0, the first frame that needs the ball). Every input
  that is not bad-shaped yields the canonical frames together with the frame-0 player ids.
\<close>

theorem canonicalize_fails_iff_bad_shape:
  "((\<exists>e. canonicalize_frames raw_frames = Inl e) \<longleftrightarrow> bad_shape raw_frames) \<and>
   (raw_frames = [] \<longrightarrow> canonicalize_frames raw_frames = Inl (ValueError msg_no_frames)) \<and>
   (raw_frames \<noteq> [] \<and> bad_shape raw_frames \<longrightarrow>
      ball_missing (raw_frames ! 0) \<and>
      canonicalize_frames raw_frames = Inl (ValueError (msg_ball_missing 0))) \<and>
   (\<not> bad_shape raw_frames \<longrightarrow>
      (\<exists>frames. canonicalize_frames raw_frames = Inr (frames, map fst (player_pos (hd raw_frames)))))"
proof (cases raw_frames)
  case Nil
  then show ?thesis by (simp add: canonicalize_frames_def bad_shape_def)
next
  case (Cons rf rfs)
  have bs: "bad_shape raw_frames \<longleftrightarrow> ball_missing rf"
    using Cons by (simp add: bad_shape_def player_unfillable_never ball_unresolved_iff)
  show ?thesis
  proof (cases "ball_missing rf")
    case True
    then show ?thesis using canonicalize_frames_cases [of raw_frames] Cons bs by simp
  next
    case False
    then show ?thesis using canonicalize_frames_cases [of raw_frames] Cons bs by auto
  qed
qed

theorem canonicalize_fails_iff_bad_shape_witness:
  "bad_shape demo_bad_raw \<and>
   canonicalize_frames demo_bad_raw = Inl (ValueError (msg_ball_missing 0)) \<and>
   bad_shape [] \<and> canonicalize_frames [] = Inl (ValueError msg_no_frames) \<and>
   \<not> bad_shape demo_raw \<and>
   (\<exists>frames. canonicalize_frames demo_raw = Inr (frames, [''a'', ''b'']))"
proof -
  have bad: "bad_shape demo_bad_raw"
    by (simp add: bad_shape_def ball_unresolved_def ball_missing_def demo_bad_raw_def no_ball_def)
  have ne: "demo_bad_raw \<noteq> []" by (simp add: demo_bad_raw_def)
  have good: "\<not> bad_shape demo_raw"
    by (simp add: bad_shape_def ball_unresolved_def player_unfillable_def ball_missing_def
        demo_raw_def demo_ball_def)
  have keys: "map fst (player_pos (hd demo_raw)) = [''a'', ''b'']" by (simp add: demo_raw_def)
  have e: "bad_shape []" by (simp add: bad_shape_def)
  from canonicalize_fails_iff_bad_shape [of demo_bad_raw] bad ne
  have 1: "canonicalize_frames demo_bad_raw = Inl (ValueError (msg_ball_missing 0))" by simp
  from canonicalize_fails_iff_bad_shape [of "[]"]
  have 2: "canonicalize_frames [] = Inl (ValueError msg_no_frames)" by simp
  from canonicalize_fails_iff_bad_shape [of demo_raw] good keys
  have 3: "\<exists>frames. canonicalize_frames demo_raw = Inr (frames, [''a'', ''b''])" by simp
  from bad 1 e 2 good 3 show ?thesis by simp
qed

section \<open>Properties of the temporal smoother\<close>

lemma mset_insort_desc: "mset (insort_desc e ys) = add_mset e (mset ys)"
  by (induction ys) auto

lemma mset_foldr_insort_desc: "mset (foldr insort_desc es []) = mset es"
  by (induction es) (auto simp: mset_insort_desc)

lemma mset_sort_desc: "mset (sort_desc es) = mset es"
proof (cases "list_ex (\<lambda>e. score e = NaN) es")
  case True
  have "mset (nan_order es) = mset es"
    unfolding nan_order_def by (rule someI [of "\<lambda>ys. mset ys = mset es" es]) simp
  with True show ?thesis by (simp add: sort_desc_def)
next
  case False
  then show ?thesis by (simp add: sort_desc_def mset_foldr_insort_desc)
qed

lemma sort_desc_no_nan:
  "\<forall>e\<in>set es. score e \<noteq> NaN \<Longrightarrow> sort_desc es = foldr insort_desc es []"
  by (simp add: sort_desc_def list_ex_iff)

lemma length_sort_desc: "length (sort_desc es) = length es"
  using mset_sort_desc [of es] by (metis size_mset)

lemma set_sort_desc: "set (sort_desc es) = set es"
  using mset_sort_desc [of es] by (metis set_mset_mset)

lemma sort_desc_Nil_iff: "sort_desc es = [] \<longleftrightarrow> es = []"
  using length_sort_desc [of es] by auto

lemma hd_insort_desc:
  "hd (insort_desc e ys) = (if ys \<noteq> [] \<and> flt (score e) (score (hd ys)) then hd ys else e)"
  by (cases ys) auto

lemma flt_trans_ge:
  "a \<noteq> NaN \<Longrightarrow> b \<noteq> NaN \<Longrightarrow> c \<noteq> NaN \<Longrightarrow> \<not> flt a b \<Longrightarrow> \<not> flt b c \<Longrightarrow> \<not> flt a c"
  by (cases a; cases b; cases c) auto

lemma flt_asym: "flt a b \<Longrightarrow> \<not> flt b a"
  by (cases a; cases b) auto

lemma flt_antisym_eq: "a \<noteq> NaN \<Longrightarrow> b \<noteq> NaN \<Longrightarrow> \<not> flt a b \<Longrightarrow> \<not> flt b a \<Longrightarrow> a = b"
  by (cases a; cases b) auto

lemma foldr_insort_desc_hd_max:
  "es \<noteq> [] \<Longrightarrow> \<forall>e\<in>set es. score e \<noteq> NaN \<Longrightarrow>
     \<forall>e\<in>set es. \<not> flt (score (hd (foldr insort_desc es []))) (score e)"
proof (induction es)
  case Nil
  then show ?case by simp
next
  case (Cons x xs)
  let ?s = "foldr insort_desc xs []"
  show ?case
  proof (cases "xs = []")
    case True
    then show ?thesis by (cases "score x") auto
  next
    case False
    let ?h = "hd ?s"
    have ms: "mset ?s = mset xs" by (rule mset_foldr_insort_desc)
    then have ss: "set ?s = set xs" by (metis set_mset_mset)
    have ne: "?s \<noteq> []" using False ms by auto
    have hin: "?h \<in> set xs" using ne ss by (metis hd_in_set)
    have ih: "\<forall>e\<in>set xs. \<not> flt (score ?h) (score e)"
      using Cons.IH False Cons.prems(2) by simp
    have nn: "score x \<noteq> NaN" "score ?h \<noteq> NaN" using Cons.prems(2) hin by auto
    show ?thesis
    proof (cases "flt (score x) (score ?h)")
      case True
      then have "hd (foldr insort_desc (x # xs) []) = ?h"
        using ne by (simp add: hd_insort_desc)
      moreover have "\<not> flt (score ?h) (score x)" using True by (rule flt_asym)
      ultimately show ?thesis using ih by simp
    next
      case nlt: False
      then have hx: "hd (foldr insort_desc (x # xs) []) = x"
        by (simp add: hd_insort_desc)
      have "\<not> flt (score x) (score e)" if "e \<in> set xs" for e
      proof -
        have "score e \<noteq> NaN" using that Cons.prems(2) by simp
        with nn nlt ih that show ?thesis
          using flt_trans_ge [of "score x" "score ?h" "score e"] by blast
      qed
      moreover have "\<not> flt (score x) (score x)" by (cases "score x") auto
      ultimately show ?thesis using hx by simp
    qed
  qed
qed

lemma sort_desc_hd_max:
  "es \<noteq> [] \<Longrightarrow> \<forall>e\<in>set es. score e \<noteq> NaN \<Longrightarrow>
     \<forall>e\<in>set es. \<not> flt (score (hd (sort_desc es))) (score e)"
  using foldr_insort_desc_hd_max [of es] by (simp add: sort_desc_no_nan)

lemma smooth_loop_step:
  "smooth_loop cfg ((i, events) # rest) out prev =
     smooth_loop cfg rest (AList.update i (smooth_frame cfg prev events) out)
       (next_primary cfg prev events)"
  by (cases events; cases prev) (simp_all add: smooth_frame_def next_primary_def Let_def)

lemma smooth_loop_other:
  "k \<notin> fst ` set es \<Longrightarrow> map_of (smooth_loop cfg es out prev) k = map_of out k"
proof (induction es arbitrary: out prev)
  case Nil
  then show ?case by simp
next
  case (Cons e es)
  obtain i events where e: "e = (i, events)" by (cases e)
  from Cons.prems e have "k \<noteq> i" "k \<notin> fst ` set es" by auto
  then show ?case using Cons.IH e
    by (simp add: smooth_loop_step update_conv' del: smooth_loop.simps)
qed

lemma smooth_loop_at:
  "distinct (map fst es) \<Longrightarrow> n < length es \<Longrightarrow>
     map_of (smooth_loop cfg es out prev) (fst (es ! n)) =
       Some (smooth_frame cfg (carried cfg (take n es) prev) (snd (es ! n)))"
proof (induction es arbitrary: out prev n)
  case Nil
  then show ?case by simp
next
  case (Cons e es)
  obtain i events where e: "e = (i, events)" by (cases e)
  show ?case
  proof (cases n)
    case 0
    have "i \<notin> fst ` set es" using Cons.prems(1) e by auto
    then show ?thesis using 0 e
      by (simp add: smooth_loop_step smooth_loop_other update_conv' del: smooth_loop.simps)
  next
    case (Suc m)
    then have "m < length es" "distinct (map fst es)" using Cons.prems by auto
    from Cons.IH [OF this(2,1)] show ?thesis using Suc e
      by (simp add: smooth_loop_step del: smooth_loop.simps)
  qed
qed

lemma smooth_loop_keys:
  "map fst (smooth_loop cfg es [] None) = map fst es" if "distinct (map fst es)"
proof -
  have "distinct (map fst es) \<Longrightarrow> fst ` set out \<inter> fst ` set es = {} \<Longrightarrow>
        map fst (smooth_loop cfg es out prev) = map fst out @ map fst es" for out prev
  proof (induction es arbitrary: out prev)
    case Nil
    then show ?case by simp
  next
    case (Cons e es)
    obtain i events where e: "e = (i, events)" by (cases e)
    have ni: "i \<notin> fst ` set out" using Cons.prems(2) e by auto
    then have upd: "AList.update i (smooth_frame cfg prev events) out
                     = out @ [(i, smooth_frame cfg prev events)]"
      by (induction out) auto
    have "fst ` set (out @ [(i, smooth_frame cfg prev events)]) \<inter> fst ` set es = {}"
      using Cons.prems e by auto
    with Cons.IH [of "out @ [(i, smooth_frame cfg prev events)]"] Cons.prems(1) e upd
    show ?case by (simp add: smooth_loop_step del: smooth_loop.simps)
  qed
  from this [of "[]" None] that show ?thesis by simp
qed

lemma carried_append: "carried cfg (xs @ ys) prev = carried cfg ys (carried cfg xs prev)"
  by (induction xs arbitrary: prev) auto

lemma carried_all_empty: "\<forall>e\<in>set xs. snd e = [] \<Longrightarrow> carried cfg xs prev = prev"
  by (induction xs arbitrary: prev) (auto simp: next_primary_def)

lemma length_smooth_frame: "length (smooth_frame cfg prev events) = length events"
  by (auto simp: smooth_frame_def length_sort_desc split: option.splits)

lemma sorted_entries:
  assumes "distinct (map fst d)"
  shows "distinct (map fst (sort_key fst d))" and "sorted (map fst (sort_key fst d))"
    and "map_of (sort_key fst d) = map_of d" and "set (sort_key fst d) = set d"
proof -
  have "mset (map fst (sort_key fst d)) = mset (map fst d)" by simp
  then show 1: "distinct (map fst (sort_key fst d))"
    using assms by (metis mset_eq_imp_distinct_iff)
  show "sorted (map fst (sort_key fst d))" by simp
  show 2: "set (sort_key fst d) = set d" by simp
  show "map_of (sort_key fst d) = map_of d"
    using map_of_inject_set [OF 1 assms] 2 by simp
qed

lemma entries_nth_less:
  assumes "sorted (map fst es)" "distinct (map fst es)" "m < n" "n < length es"
  shows "fst (es ! m) < fst (es ! n)"
proof -
  have "sorted_wrt (<) (map fst es)" using assms(1,2) by (simp add: strict_sorted_iff)
  from sorted_wrt_nth_less [OF this, of m n] assms(3,4) show ?thesis by simp
qed

lemma entry_index:
  assumes "distinct (map fst d)" "map_of d i = Some evs"
  shows "\<exists>n<length (sort_key fst d). sort_key fst d ! n = (i, evs)"
proof -
  have "(i, evs) \<in> set d" using assms(2) by (rule map_of_SomeD)
  then have "(i, evs) \<in> set (sort_key fst d)" by simp
  then show ?thesis by (metis in_set_conv_nth)
qed

lemma smoothing_at:
  assumes "distinct (map fst d)" "n < length (sort_key fst d)" "sort_key fst d ! n = (i, evs)"
  shows "map_of (apply_temporal_smoothing d cfg) i =
           Some (smooth_frame cfg (carried cfg (take n (sort_key fst d)) None) evs)"
proof -
  have ne: "d \<noteq> []" using assms(2) by auto
  from smooth_loop_at [OF sorted_entries(1) [OF assms(1)] assms(2), of cfg "[]" None] assms(3) ne
  show ?thesis by (simp add: apply_temporal_smoothing_def)
qed

lemma empty_at_entry:
  assumes "distinct (map fst d)" "m < length (sort_key fst d)" "empty_at d (fst (sort_key fst d ! m))"
  shows "snd (sort_key fst d ! m) = []"
proof -
  have "sort_key fst d ! m \<in> set d" using assms(2) sorted_entries(4) [OF assms(1)]
    by (metis nth_mem)
  then have "map_of d (fst (sort_key fst d ! m)) = Some (snd (sort_key fst d ! m))"
    using assms(1) by (metis map_of_eq_Some_iff prod.collapse)
  with assms(3) show ?thesis by (simp add: empty_at_def get_default_def)
qed

lemma carried_before_first:
  assumes "distinct (map fst d)" "n < length (sort_key fst d)" "fst (sort_key fst d ! n) = i"
    and "\<forall>k<i. empty_at d k"
  shows "carried cfg (take n (sort_key fst d)) prev = prev"
proof (rule carried_all_empty, rule ballI)
  fix e assume "e \<in> set (take n (sort_key fst d))"
  then obtain m where m: "m < n" "e = sort_key fst d ! m"
    using assms(2) by (auto simp: in_set_conv_nth)
  have "fst (sort_key fst d ! m) < i"
    using entries_nth_less [OF sorted_entries(2,1) [OF assms(1)] m(1) assms(2)] assms(3) by simp
  with assms(4) have "empty_at d (fst (sort_key fst d ! m))" by simp
  from empty_at_entry [OF assms(1) _ this] m assms(2) show "snd e = []" by simp
qed

lemma carried_after_gap:
  assumes "distinct (map fst d)" "n < length (sort_key fst d)" "fst (sort_key fst d ! n) = i"
    and "m < n" "sort_key fst d ! m = (j, pj)" "pj \<noteq> []"
    and "\<forall>k. j < k \<and> k < i \<longrightarrow> empty_at d k"
  shows "carried cfg (take n (sort_key fst d)) None =
           Some (hd (smooth_frame cfg (carried cfg (take m (sort_key fst d)) None) pj))"
proof -
  let ?es = "sort_key fst d"
  have mlen: "m < length ?es" using assms(2,4) by simp
  have "m < length (take n ?es)" using assms(2,4) by simp
  from id_take_nth_drop [OF this]
  have split: "take n ?es = take m ?es @ (j, pj) # drop (Suc m) (take n ?es)"
    using assms(4,5) by (simp add: min_def)
  have gap: "\<forall>e\<in>set (drop (Suc m) (take n ?es)). snd e = []"
  proof
    fix e assume "e \<in> set (drop (Suc m) (take n ?es))"
    then obtain q where q: "q < length (drop (Suc m) (take n ?es))"
      "e = drop (Suc m) (take n ?es) ! q"
      by (auto simp: in_set_conv_nth)
    define r where "r = Suc m + q"
    have r: "m < r" "r < n" "e = ?es ! r"
      using q assms(2) by (auto simp: r_def)
    have "fst (?es ! m) < fst (?es ! r)"
      using entries_nth_less [OF sorted_entries(2,1) [OF assms(1)] r(1)] r(2) assms(2) by simp
    moreover have "fst (?es ! r) < fst (?es ! n)"
      using entries_nth_less [OF sorted_entries(2,1) [OF assms(1)] r(2) assms(2)] .
    ultimately have "empty_at d (fst (?es ! r))" using assms(3,5,7) by simp
    from empty_at_entry [OF assms(1) _ this] r assms(2) show "snd e = []" by simp
  qed
  show ?thesis
    by (subst split) (simp add: carried_append carried_all_empty [OF gap] next_primary_def assms(6))
qed

lemma smoothing_keys:
  assumes "distinct (map fst d)"
  shows "map fst (apply_temporal_smoothing d cfg) = sort (map fst d)"
proof (cases "d = []")
  case True
  then show ?thesis by (simp add: apply_temporal_smoothing_def)
next
  case False
  have "sort (map fst d) = map fst (sort_key fst d)"
    by (rule properties_for_sort) simp_all
  with False smooth_loop_keys [OF sorted_entries(1) [OF assms], of cfg] show ?thesis
    by (simp add: apply_temporal_smoothing_def)
qed

lemma smoothing_first_nonempty:
  assumes "distinct (map fst d)" "map_of d i = Some evs" "\<forall>k<i. empty_at d k"
  shows "map_of (apply_temporal_smoothing d cfg) i = Some evs"
proof -
  from entry_index [OF assms(1,2)] obtain n where
    n: "n < length (sort_key fst d)" "sort_key fst d ! n = (i, evs)" by blast
  have "carried cfg (take n (sort_key fst d)) None = None"
    using carried_before_first [OF assms(1) n(1) _ assms(3)] n(2) by simp
  with smoothing_at [OF assms(1) n, of cfg] show ?thesis
    by (simp add: smooth_frame_def)
qed

lemma smoothing_after_gap:
  assumes "distinct (map fst d)" "map_of d i = Some evs" "evs \<noteq> []"
    and "j < i" "map_of d j = Some pj" "pj \<noteq> []"
    and "\<forall>k. j < k \<and> k < i \<longrightarrow> empty_at d k"
  shows "\<exists>oj. map_of (apply_temporal_smoothing d cfg) j = Some oj \<and> oj \<noteq> [] \<and>
           map_of (apply_temporal_smoothing d cfg) i =
             Some (sort_desc (map (adjust cfg (hd oj)) evs))"
proof -
  let ?es = "sort_key fst d"
  from entry_index [OF assms(1,2)] obtain n where
    n: "n < length ?es" "?es ! n = (i, evs)" by blast
  from entry_index [OF assms(1,5)] obtain m where
    m: "m < length ?es" "?es ! m = (j, pj)" by blast
  have mn: "m < n"
  proof (rule ccontr)
    assume "\<not> m < n"
    then have "n < m \<or> n = m" by auto
    then show False
    proof
      assume "n < m"
      from entries_nth_less [OF sorted_entries(2,1) [OF assms(1)] this m(1)] n(2) m(2) assms(4)
      show False by simp
    next
      assume "n = m"
      with n(2) m(2) assms(4) show False by simp
    qed
  qed
  let ?oj = "smooth_frame cfg (carried cfg (take m ?es) None) pj"
  have oj: "map_of (apply_temporal_smoothing d cfg) j = Some ?oj"
    by (rule smoothing_at [OF assms(1) m])
  have ne: "?oj \<noteq> []" using length_smooth_frame [of cfg _ pj] assms(6) by (metis length_0_conv)
  have "carried cfg (take n ?es) None = Some (hd ?oj)"
    using carried_after_gap [OF assms(1) n(1) _ mn m(2) assms(6,7)] n(2) by simp
  with smoothing_at [OF assms(1) n, of cfg] assms(3)
  have "map_of (apply_temporal_smoothing d cfg) i = Some (sort_desc (map (adjust cfg (hd ?oj)) evs))"
    by (simp add: smooth_frame_def)
  with oj ne show ?thesis by blast
qed

lemma smoothing_frame_shape:
  assumes "distinct (map fst d)" "map_of d i = Some evs"
  shows "\<exists>prev. map_of (apply_temporal_smoothing d cfg) i = Some (smooth_frame cfg prev evs)"
proof -
  from entry_index [OF assms(1,2)] obtain n where
    n: "n < length (sort_key fst d)" "sort_key fst d ! n = (i, evs)" by blast
  from smoothing_at [OF assms(1) n, of cfg] show ?thesis by blast
qed

lemma adjust_adjusted_from: "adjusted_from cfg p e (adjust cfg p e)"
  by (simp add: adjusted_from_def adjust_def Let_def)

lemma score_adjust:
  "score (adjust cfg p e) =
     fadd64 (score e) (Fin (if same_focus e p then persistence_bonus cfg else - switch_penalty cfg))"
  by (simp add: adjust_def Let_def)

lemma same_focus_adjust: "same_focus (adjust cfg p e) q = same_focus e q"
  by (simp add: same_focus_def adjust_def Let_def)


lemma last_nonempty:
  assumes "\<not> (\<forall>k<i. empty_at d k)"
  shows "\<exists>j<i. \<not> empty_at d j \<and> (\<forall>k. j < k \<and> k < i \<longrightarrow> empty_at d k)"
  using assms
proof (induction i)
  case 0
  then show ?case by simp
next
  case (Suc i)
  show ?case
  proof (cases "empty_at d i")
    case False
    then show ?thesis by (intro exI [of _ i]) (auto simp: less_Suc_eq)
  next
    case True
    with Suc.prems have "\<not> (\<forall>k<i. empty_at d k)" by (auto simp: less_Suc_eq)
    from Suc.IH [OF this] obtain j where
      j: "j < i" "\<not> empty_at d j" "\<forall>k. j < k \<and> k < i \<longrightarrow> empty_at d k" by blast
    with True show ?thesis by (intro exI [of _ j]) (auto simp: less_Suc_eq)
  qed
qed

lemma nonempty_entry:
  assumes "\<not> empty_at d j"
  shows "\<exists>pj. map_of d j = Some pj \<and> pj \<noteq> []"
  using assms by (auto simp: empty_at_def get_default_def split: option.splits)

text \<open>
  Claim C9 (frame effect of the smoother). The smoothed dict has exactly the input's frame
  keys (in ascending order), and for every frame the output list has the length of the
  input list. An empty frame and a frame with only empty frames before it (the first
  non-empty frame) are returned unchanged. Every other frame \<open>i\<close> has a last non-empty
  frame \<open>j\<close> before it, and its output is a reordering of a list \<open>ys\<close> whose events
  correspond one by one to the input events: name, focus and meta unchanged, the score
  equal to the input score plus \<open>persistence_bonus\<close> (focus matching the top-ranked event
  of the smoothed frame \<open>j\<close>) or minus \<open>switch_penalty\<close> (otherwise), as one float
  addition, and one tag appended to the reasons. (The input events are values: the
  function cannot mutate them.)
\<close>

theorem smoothing_changes_only_scores_and_reasons:
  assumes "distinct (map fst d)" and "map_of d i = Some evs"
  shows "map fst (apply_temporal_smoothing d cfg) = sort (map fst d) \<and>
         (\<exists>oi. map_of (apply_temporal_smoothing d cfg) i = Some oi \<and>
               length oi = length evs \<and>
               (evs = [] \<or> (\<forall>k<i. empty_at d k) \<longrightarrow> oi = evs) \<and>
               (evs \<noteq> [] \<and> \<not> (\<forall>k<i. empty_at d k) \<longrightarrow>
                  (\<exists>j oj ys. j < i \<and> map_of (apply_temporal_smoothing d cfg) j = Some oj \<and>
                     oj \<noteq> [] \<and> (\<forall>k. j < k \<and> k < i \<longrightarrow> empty_at d k) \<and>
                     mset oi = mset ys \<and> list_all2 (adjusted_from cfg (hd oj)) evs ys)))"
proof -
  from smoothing_frame_shape [OF assms, of cfg] obtain prev where
    oi: "map_of (apply_temporal_smoothing d cfg) i = Some (smooth_frame cfg prev evs)" by blast
  let ?oi = "smooth_frame cfg prev evs"
  have first: "evs = [] \<or> (\<forall>k<i. empty_at d k) \<longrightarrow> ?oi = evs"
    using smoothing_first_nonempty [OF assms, of cfg] oi by (auto simp: smooth_frame_def)
  have later: "\<exists>j oj ys. j < i \<and> map_of (apply_temporal_smoothing d cfg) j = Some oj \<and>
                     oj \<noteq> [] \<and> (\<forall>k. j < k \<and> k < i \<longrightarrow> empty_at d k) \<and>
                     mset ?oi = mset ys \<and> list_all2 (adjusted_from cfg (hd oj)) evs ys"
    if ne: "evs \<noteq> []" and nf: "\<not> (\<forall>k<i. empty_at d k)"
  proof -
    from last_nonempty [OF nf] obtain j where
      j: "j < i" "\<not> empty_at d j" "\<forall>k. j < k \<and> k < i \<longrightarrow> empty_at d k" by blast
    from nonempty_entry [OF j(2)] obtain pj where pj: "map_of d j = Some pj" "pj \<noteq> []" by blast
    from smoothing_after_gap [OF assms ne j(1) pj j(3), of cfg] obtain oj where
      oj: "map_of (apply_temporal_smoothing d cfg) j = Some oj" "oj \<noteq> []"
      "map_of (apply_temporal_smoothing d cfg) i = Some (sort_desc (map (adjust cfg (hd oj)) evs))"
      by blast
    from oj(3) oi have "?oi = sort_desc (map (adjust cfg (hd oj)) evs)" by simp
    then have "mset ?oi = mset (map (adjust cfg (hd oj)) evs)" by (simp add: mset_sort_desc)
    moreover have "list_all2 (adjusted_from cfg (hd oj)) evs (map (adjust cfg (hd oj)) evs)"
      by (simp add: list_all2_conv_all_nth adjust_adjusted_from)
    ultimately show ?thesis using j(1,3) oj(1,2) by blast
  qed
  from oi smoothing_keys [OF assms(1), of cfg] length_smooth_frame [of cfg prev evs] first later
  show ?thesis by simp
qed


lemma fadd64_Fin_not_NaN: "a \<noteq> NaN \<Longrightarrow> fadd64 a (Fin r) \<noteq> NaN"
  by (cases a) (auto simp: round64_def)

lemma adjust_margin:
  assumes "flt (fsub c m) (Fin (sp + pb))"
  shows "\<not> flt (fadd64 m (Fin pb)) (fadd64 c (Fin (- sp)))"
proof (cases c)
  case c: (Fin cr)
  show ?thesis
  proof (cases m)
    case (Fin mr)
    with c assms have "cr + - sp \<le> mr + pb" by (simp add: fsub_def)
    from round64_mono [OF this] c Fin show ?thesis by simp
  qed (use c assms in \<open>simp_all add: fsub_def\<close>)
qed (use assms in \<open>cases m; simp add: fsub_def\<close>)+

lemma adjusted_top:
  assumes "m \<in> set evs" "same_focus m p" "\<forall>e\<in>set evs. score e \<noteq> NaN"
    and "\<forall>c\<in>set evs. \<not> same_focus c p \<longrightarrow>
           flt (fsub (score c) (score m)) (Fin (switch_penalty cfg + persistence_bonus cfg))"
  shows "same_focus (hd (sort_desc (map (adjust cfg p) evs))) p \<or>
         score (hd (sort_desc (map (adjust cfg p) evs))) =
           fadd64 (score m) (Fin (persistence_bonus cfg))"
    and "(\<forall>c\<in>set evs. \<not> same_focus c p \<longrightarrow>
            flt (fadd64 (score c) (Fin (- switch_penalty cfg)))
                (fadd64 (score m) (Fin (persistence_bonus cfg)))) \<Longrightarrow>
         same_focus (hd (sort_desc (map (adjust cfg p) evs))) p"
proof -
  let ?adj = "map (adjust cfg p) evs"
  have ne: "?adj \<noteq> []" using assms(1) by auto
  have nn: "\<forall>e\<in>set ?adj. score e \<noteq> NaN"
    using assms(3) by (auto simp: score_adjust fadd64_Fin_not_NaN)
  have "sort_desc ?adj \<noteq> []" using ne by (simp add: sort_desc_Nil_iff)
  then have "hd (sort_desc ?adj) \<in> set ?adj"
    using set_sort_desc [of ?adj] by (metis hd_in_set)
  then obtain c where c: "c \<in> set evs" "hd (sort_desc ?adj) = adjust cfg p c" by auto
  have max: "\<not> flt (score (adjust cfg p c)) (score (adjust cfg p m))"
    using sort_desc_hd_max [OF ne nn] assms(1) c(2) by auto
  have sm: "score (adjust cfg p m) = fadd64 (score m) (Fin (persistence_bonus cfg))"
    using assms(2) by (simp add: score_adjust)
  show "same_focus (hd (sort_desc ?adj)) p \<or>
        score (hd (sort_desc ?adj)) = fadd64 (score m) (Fin (persistence_bonus cfg))"
  proof (cases "same_focus c p")
    case True
    then show ?thesis by (simp add: c(2) same_focus_adjust)
  next
    case False
    then have sc: "score (adjust cfg p c) = fadd64 (score c) (Fin (- switch_penalty cfg))"
      by (simp add: score_adjust)
    from False assms(4) c(1)
    have "flt (fsub (score c) (score m)) (Fin (switch_penalty cfg + persistence_bonus cfg))"
      by simp
    from adjust_margin [OF this]
    have "\<not> flt (score (adjust cfg p m)) (score (adjust cfg p c))" by (simp add: sm sc)
    moreover have "score (adjust cfg p c) \<noteq> NaN" "score (adjust cfg p m) \<noteq> NaN"
      using nn c(1) assms(1) by auto
    ultimately have "score (adjust cfg p c) = score (adjust cfg p m)"
      using max flt_antisym_eq by blast
    then show ?thesis by (simp add: c(2) sm)
  qed
  show "same_focus (hd (sort_desc ?adj)) p"
    if strict: "\<forall>c\<in>set evs. \<not> same_focus c p \<longrightarrow>
            flt (fadd64 (score c) (Fin (- switch_penalty cfg)))
                (fadd64 (score m) (Fin (persistence_bonus cfg)))"
  proof (rule ccontr)
    assume "\<not> same_focus (hd (sort_desc ?adj)) p"
    then have ns: "\<not> same_focus c p" by (simp add: c(2) same_focus_adjust)
    then have "score (adjust cfg p c) = fadd64 (score c) (Fin (- switch_penalty cfg))"
      by (simp add: score_adjust)
    with strict c(1) ns max sm show False by simp
  qed
qed

text \<open>
  Claim C4 (smoothing lag), as amended. Let \<open>i\<close> be a frame with a carried previous
  primary, that is, \<open>j < i\<close> is the last non-empty frame before \<open>i\<close> and \<open>hd oj\<close> is the
  top-ranked event of the smoothed frame \<open>j\<close>. Let no score of frame \<open>i\<close> be \<open>nan\<close>, let
  frame \<open>i\<close> contain an event \<open>m\<close> whose focus matches the carried primary, and let every
  non-matching event's pre-smoothing score exceed that of \<open>m\<close> by strictly less than
  \<open>switch_penalty + persistence_bonus\<close>. Then no non-matching event is ranked above \<open>m\<close>
  for a higher smoothed score: the top-ranked event of the smoothed frame \<open>i\<close> matches the
  carried primary, or its smoothed score is equal to the smoothed score of \<open>m\<close>, a tie
  produced by the rounding of the two float additions, which the stable sort resolves by
  input order. When every non-matching event's smoothed score is strictly below the
  smoothed score of \<open>m\<close>, the primary does not switch. Matching is the smoother's own test
  \<open>same_focus\<close> (same target type, same target player id, anchors within 1e-3).
\<close>

theorem smoothing_keeps_matching_primary:
  assumes "distinct (map fst d)"
    and "map_of d i = Some evs"
    and "j < i" and "map_of d j = Some pj" and "pj \<noteq> []"
    and "\<forall>k. j < k \<and> k < i \<longrightarrow> empty_at d k"
    and "map_of (apply_temporal_smoothing d cfg) j = Some oj"
    and "m \<in> set evs" and "same_focus m (hd oj)"
    and "\<forall>e\<in>set evs. score e \<noteq> NaN"
    and "\<forall>c\<in>set evs. \<not> same_focus c (hd oj) \<longrightarrow>
           flt (fsub (score c) (score m)) (Fin (switch_penalty cfg + persistence_bonus cfg))"
  shows "\<exists>oi. map_of (apply_temporal_smoothing d cfg) i = Some oi \<and> oi \<noteq> [] \<and>
              (same_focus (hd oi) (hd oj) \<or>
               score (hd oi) = fadd64 (score m) (Fin (persistence_bonus cfg))) \<and>
              ((\<forall>c\<in>set evs. \<not> same_focus c (hd oj) \<longrightarrow>
                  flt (fadd64 (score c) (Fin (- switch_penalty cfg)))
                      (fadd64 (score m) (Fin (persistence_bonus cfg)))) \<longrightarrow>
               same_focus (hd oi) (hd oj))"
proof -
  have ne: "evs \<noteq> []" using assms(8) by auto
  from smoothing_after_gap [OF assms(1,2) ne assms(3,4,5,6), of cfg] assms(7)
  have oi: "map_of (apply_temporal_smoothing d cfg) i =
              Some (sort_desc (map (adjust cfg (hd oj)) evs))"
    by auto
  have "sort_desc (map (adjust cfg (hd oj)) evs) \<noteq> []"
    using ne by (simp add: sort_desc_Nil_iff)
  with oi adjusted_top [OF assms(8,9,10,11)] show ?thesis by simp
qed

lemma smoothing_empty:
  assumes "distinct (map fst d)" "map_of d i = Some []"
  shows "map_of (apply_temporal_smoothing d cfg) i = Some []"
  using smoothing_frame_shape [OF assms, of cfg] by (auto simp: smooth_frame_def)

lemma demo_scored_facts:
  "distinct (map fst demo_scored)"
  "map_of demo_scored 0 = Some []"
  "map_of demo_scored 1 = Some [ev_ball 3, ev_goal 2]"
  "map_of demo_scored 3 = Some [ev_ball 1, ev_goal 3]"
  "\<forall>k<1. empty_at demo_scored k"
  "\<forall>k. 1 < k \<and> k < 3 \<longrightarrow> empty_at demo_scored k"
  "map_of demo_scored 2 = Some []"
  "\<not> (\<forall>k<3. empty_at demo_scored k)"
proof -
  have "k = 2" if "1 < k \<and> k < 3" for k :: nat
    using that by arith
  then show "\<forall>k. 1 < k \<and> k < 3 \<longrightarrow> empty_at demo_scored k"
    by (auto simp: empty_at_def get_default_def demo_scored_def)
  have "\<not> empty_at demo_scored 1"
    by (simp add: empty_at_def get_default_def demo_scored_def)
  then show "\<not> (\<forall>k<3. empty_at demo_scored k)"
    by (intro notI) (drule spec [of _ 1], simp)
qed (simp_all add: demo_scored_def empty_at_def get_default_def)

lemma demo_smoothed_1:
  "map_of (apply_temporal_smoothing demo_scored default_config) 1 = Some [ev_ball 3, ev_goal 2]"
  using smoothing_first_nonempty [OF demo_scored_facts(1,3,5)] .

lemma demo_same_focus:
  "same_focus (ev_ball s) (ev_ball t)" "\<not> same_focus (ev_goal s) (ev_ball t)"
  by (simp_all add: same_focus_def anchor_close_def round64_0 threshold_nonneg ev_ball_def
      ev_goal_def)

lemma demo_roundings:
  "round64 (9 / 5) = Fin (8106479329266893 / 4503599627370496)"
  "round64 (3 / 2) = Fin (3 / 2)"
  "round64 (17 / 4) = Fin (17 / 4)"
  "round64 (9570149208162305 / 2251799813685248) = Fin (17 / 4)"
proof -
  show "round64 (9 / 5) = Fin (8106479329266893 / 4503599627370496)"
    by (subst round64_eq [where e = 0]) (simp_all add: round_half_even_def powr_minus_divide)
  show "round64 (3 / 2) = Fin (3 / 2)"
    by (subst round64_eq [where e = 0]) (simp_all add: round_half_even_def powr_minus_divide)
  show "round64 (17 / 4) = Fin (17 / 4)"
    by (subst round64_eq [where e = 2]) (simp_all add: round_half_even_def powr_minus_divide)
  show "round64 (9570149208162305 / 2251799813685248) = Fin (17 / 4)"
    by (subst round64_eq [where e = 2]) (simp_all add: round_half_even_def powr_minus_divide)
qed

theorem smoothing_changes_only_scores_and_reasons_witness:
  "distinct (map fst demo_scored) \<and> map_of demo_scored 3 = Some [ev_ball 1, ev_goal 3] \<and>
   \<not> (\<forall>k<3. empty_at demo_scored k) \<and>
   map fst (apply_temporal_smoothing demo_scored default_config) = [0, 1, 2, 3] \<and>
   map_of demo_scored 1 = Some [ev_ball 3, ev_goal 2] \<and> empty_at demo_scored 0 \<and>
   map_of (apply_temporal_smoothing demo_scored default_config) 1 = Some [ev_ball 3, ev_goal 2] \<and>
   (\<exists>oi. map_of (apply_temporal_smoothing demo_scored default_config) 3 = Some oi \<and>
         length oi = 2 \<and>
         mset oi = mset [(ev_ball 1)\<lparr>score := round64 (9 / 5),
                                      reasons := [''ball_d=1.00'', ''persist_bonus'']\<rparr>,
                         (ev_goal 3)\<lparr>score := round64 (3 / 2),
                                      reasons := [''goal_d=50.00'', ''switch_penalty'']\<rparr>])"
proof -
  note f = demo_scored_facts
  let ?out = "apply_temporal_smoothing demo_scored default_config"
  have keys: "sort (map fst demo_scored) = [0, 1, 2, 3]"
    by (simp add: demo_scored_def)
  have ne: "[ev_ball 1, ev_goal 3] \<noteq> []"
    by simp
  from smoothing_changes_only_scores_and_reasons [OF f(1,4), of default_config]
  obtain oi where k: "map fst ?out = sort (map fst demo_scored)"
    and oi: "map_of ?out 3 = Some oi" "length oi = length [ev_ball 1, ev_goal 3]"
    and later: "[ev_ball 1, ev_goal 3] \<noteq> [] \<and> \<not> (\<forall>k<3. empty_at demo_scored k) \<longrightarrow>
       (\<exists>j oj ys. j < 3 \<and> map_of ?out j = Some oj \<and> oj \<noteq> [] \<and>
          (\<forall>k. j < k \<and> k < 3 \<longrightarrow> empty_at demo_scored k) \<and>
          mset oi = mset ys \<and>
          list_all2 (adjusted_from default_config (hd oj)) [ev_ball 1, ev_goal 3] ys)"
    by blast
  from later ne f(8) obtain j oj ys where j: "j < 3" "map_of ?out j = Some oj" "oj \<noteq> []"
    and ys: "mset oi = mset ys"
      "list_all2 (adjusted_from default_config (hd oj)) [ev_ball 1, ev_goal 3] ys"
    by blast
  have "j = 0 \<or> j = 1 \<or> j = 2"
    using j(1) by arith
  moreover have "map_of ?out 0 = Some []" "map_of ?out 2 = Some []"
    using smoothing_empty [OF f(1,2)] smoothing_empty [OF f(1,7)] by simp_all
  ultimately have "j = 1"
    using j(2,3) by auto
  with j(2) demo_smoothed_1 have oj: "hd oj = ev_ball 3"
    by simp
  from ys(2) obtain y1 y2 where y: "ys = [y1, y2]"
    "adjusted_from default_config (ev_ball 3) (ev_ball 1) y1"
    "adjusted_from default_config (ev_ball 3) (ev_goal 3) y2"
    by (auto simp: list_all2_Cons1 oj)
  from y(2) have y1f: "name y1 = name (ev_ball 1)" "focus y1 = focus (ev_ball 1)"
    "meta y1 = meta (ev_ball 1)"
    "score y1 = fadd64 (score (ev_ball 1)) (Fin (persistence_bonus default_config))"
    "reasons y1 = reasons (ev_ball 1) @ [if 0 < persistence_bonus default_config
                                          then ''persist_bonus'' else ''switch_penalty'']"
    by (simp_all add: adjusted_from_def demo_same_focus)
  have y1: "y1 = (ev_ball 1)\<lparr>score := round64 (9 / 5),
                              reasons := [''ball_d=1.00'', ''persist_bonus'']\<rparr>"
    by (intro scored_event.equality) (simp_all add: y1f ev_ball_def default_config_def)
  from y(3) have y2f: "name y2 = name (ev_goal 3)" "focus y2 = focus (ev_goal 3)"
    "meta y2 = meta (ev_goal 3)"
    "score y2 = fadd64 (score (ev_goal 3)) (Fin (- switch_penalty default_config))"
    "reasons y2 = reasons (ev_goal 3) @ [if switch_penalty default_config < 0
                                          then ''persist_bonus'' else ''switch_penalty'']"
    by (simp_all add: adjusted_from_def demo_same_focus)
  have y2: "y2 = (ev_goal 3)\<lparr>score := round64 (3 / 2),
                              reasons := [''goal_d=50.00'', ''switch_penalty'']\<rparr>"
    by (intro scored_event.equality) (simp_all add: y2f ev_goal_def default_config_def)
  have len: "length oi = 2"
    using oi(2) by simp
  have ex: "\<exists>oi. map_of ?out 3 = Some oi \<and> length oi = 2 \<and>
         mset oi = mset [(ev_ball 1)\<lparr>score := round64 (9 / 5),
                                      reasons := [''ball_d=1.00'', ''persist_bonus'']\<rparr>,
                         (ev_goal 3)\<lparr>score := round64 (3 / 2),
                                      reasons := [''goal_d=50.00'', ''switch_penalty'']\<rparr>]"
    using oi(1) len ys(1) unfolding y(1) y1 y2 by (intro exI [of _ oi] conjI)
  have k': "map fst ?out = [0, 1, 2, 3]"
    using k keys by simp
  from smoothing_changes_only_scores_and_reasons [OF f(1,3), of default_config] f(5)
  have first: "map_of ?out 1 = Some [ev_ball 3, ev_goal 2]"
    by auto
  have e0: "empty_at demo_scored 0"
    using f(5) by simp
  show ?thesis
    by (intro conjI f(1) f(4) f(8) k' f(3) e0 first ex)
qed


theorem smoothing_keeps_matching_primary_witness:
  "distinct (map fst demo_scored) \<and>
   map_of demo_scored 3 = Some [ev_ball 1, ev_goal 3] \<and>
   map_of (apply_temporal_smoothing demo_scored default_config) 1 = Some [ev_ball 3, ev_goal 2] \<and>
   ev_ball 1 \<in> set [ev_ball 1, ev_goal 3] \<and>
   same_focus (ev_ball 1) (hd [ev_ball 3, ev_goal 2]) \<and>
   \<not> same_focus (ev_goal 3) (hd [ev_ball 3, ev_goal 2]) \<and>
   flt (fsub (score (ev_goal 3)) (score (ev_ball 1)))
       (Fin (switch_penalty default_config + persistence_bonus default_config)) \<and>
   flt (fadd64 (score (ev_goal 3)) (Fin (- switch_penalty default_config)))
       (fadd64 (score (ev_ball 1)) (Fin (persistence_bonus default_config))) \<and>
   (\<exists>oi. map_of (apply_temporal_smoothing demo_scored default_config) 3 = Some oi \<and> oi \<noteq> [] \<and>
         same_focus (hd oi) (hd [ev_ball 3, ev_goal 2]))"
proof -
  note f = demo_scored_facts
  have m: "ev_ball 1 \<in> set [ev_ball 1, ev_goal 3]"
    by simp
  have sf: "same_focus (ev_ball 1) (hd [ev_ball 3, ev_goal 2])"
    by (simp add: demo_same_focus)
  have nsf: "\<not> same_focus (ev_goal 3) (hd [ev_ball 3, ev_goal 2])"
    by (simp add: demo_same_focus)
  have margin: "flt (fsub (score (ev_goal 3)) (score (ev_ball 1)))
       (Fin (switch_penalty default_config + persistence_bonus default_config))"
    by (simp add: ev_ball_def ev_goal_def fsub_def default_config_def)
  have strict: "flt (fadd64 (score (ev_goal 3)) (Fin (- switch_penalty default_config)))
       (fadd64 (score (ev_ball 1)) (Fin (persistence_bonus default_config)))"
    by (simp add: ev_ball_def ev_goal_def default_config_def demo_roundings)
  have nn: "\<forall>e\<in>set [ev_ball 1, ev_goal 3]. score e \<noteq> NaN"
    by (simp add: ev_ball_def ev_goal_def)
  have hyp: "\<forall>c\<in>set [ev_ball 1, ev_goal 3]. \<not> same_focus c (hd [ev_ball 3, ev_goal 2]) \<longrightarrow>
           flt (fsub (score c) (score (ev_ball 1)))
               (Fin (switch_penalty default_config + persistence_bonus default_config))"
    using sf margin by simp
  have hyp2: "\<forall>c\<in>set [ev_ball 1, ev_goal 3]. \<not> same_focus c (hd [ev_ball 3, ev_goal 2]) \<longrightarrow>
           flt (fadd64 (score c) (Fin (- switch_penalty default_config)))
               (fadd64 (score (ev_ball 1)) (Fin (persistence_bonus default_config)))"
    using sf strict by simp
  have j: "(1::nat) < 3" "[ev_ball 3, ev_goal 2] \<noteq> []"
    by simp_all
  from smoothing_keeps_matching_primary
    [OF f(1,4) j(1) f(3) j(2) f(6) demo_smoothed_1 m sf nn hyp] hyp2
  have "\<exists>oi. map_of (apply_temporal_smoothing demo_scored default_config) 3 = Some oi \<and>
          oi \<noteq> [] \<and> same_focus (hd oi) (hd [ev_ball 3, ev_goal 2])"
    by blast
  then show ?thesis
    by (intro conjI f(1) f(4) demo_smoothed_1 m sf nsf margin strict)
qed

lemma tie_scored_facts:
  "distinct (map fst tie_scored)"
  "map_of tie_scored 0 = Some [ev_ball 1]"
  "map_of tie_scored 1 = Some [ev_goal (23 / 4), ev_ball near_tie]"
  "\<forall>k<0. empty_at tie_scored k"
  "\<forall>k. 0 < k \<and> k < 1 \<longrightarrow> empty_at tie_scored k"
  by (simp_all add: tie_scored_def)

theorem smoothing_tie_switches_primary_counterexample:
  "map_of tie_scored 1 = Some [ev_goal (23 / 4), ev_ball near_tie] \<and>
   map_of (apply_temporal_smoothing tie_scored tie_config) 0 = Some [ev_ball 1] \<and>
   same_focus (ev_ball near_tie) (hd [ev_ball 1]) \<and>
   \<not> same_focus (ev_goal (23 / 4)) (hd [ev_ball 1]) \<and>
   flt (fsub (score (ev_goal (23 / 4))) (score (ev_ball near_tie)))
       (Fin (switch_penalty tie_config + persistence_bonus tie_config)) \<and>
   (\<exists>oi. map_of (apply_temporal_smoothing tie_scored tie_config) 1 = Some oi \<and>
         map score oi = [Fin (17 / 4), Fin (17 / 4)] \<and>
         focus (hd oi) = focus (ev_goal (23 / 4)) \<and>
         \<not> same_focus (hd oi) (hd [ev_ball 1]))"
proof -
  note f = tie_scored_facts
  have o0: "map_of (apply_temporal_smoothing tie_scored tie_config) 0 = Some [ev_ball 1]"
    using smoothing_first_nonempty [OF f(1,2,4)] .
  have ne: "[ev_goal (23 / 4), ev_ball near_tie] \<noteq> []" "[ev_ball 1] \<noteq> []"
    "(0::nat) < 1"
    by simp_all
  from smoothing_after_gap [OF f(1,3) ne(1,3) f(2) ne(2) f(5), of tie_config] o0
  have o1: "map_of (apply_temporal_smoothing tie_scored tie_config) 1 =
      Some (sort_desc (map (adjust tie_config (ev_ball 1))
              [ev_goal (23 / 4), ev_ball near_tie]))"
    by simp
  let ?oi = "sort_desc (map (adjust tie_config (ev_ball 1))
              [ev_goal (23 / 4), ev_ball near_tie])"
  have sc: "score (adjust tie_config (ev_ball 1) (ev_goal (23 / 4))) = Fin (17 / 4)"
    "score (adjust tie_config (ev_ball 1) (ev_ball near_tie)) = Fin (17 / 4)"
    by (simp_all add: score_adjust demo_same_focus)
       (simp_all add: tie_config_def default_config_def ev_ball_def ev_goal_def near_tie_def
          demo_roundings)
  have oi: "?oi = [adjust tie_config (ev_ball 1) (ev_goal (23 / 4)),
                   adjust tie_config (ev_ball 1) (ev_ball near_tie)]"
    by (subst sort_desc_no_nan) (simp_all add: sc)
  have "map score ?oi = [Fin (17 / 4), Fin (17 / 4)]"
    unfolding oi by (simp add: sc)
  moreover have "focus (hd ?oi) = focus (ev_goal (23 / 4))"
    unfolding oi by (simp add: adjust_def Let_def)
  moreover have "\<not> same_focus (hd ?oi) (hd [ev_ball 1])"
    unfolding oi by (simp add: same_focus_adjust demo_same_focus)
  ultimately have ex: "\<exists>oi. map_of (apply_temporal_smoothing tie_scored tie_config) 1 = Some oi \<and>
         map score oi = [Fin (17 / 4), Fin (17 / 4)] \<and>
         focus (hd oi) = focus (ev_goal (23 / 4)) \<and>
         \<not> same_focus (hd oi) (hd [ev_ball 1])"
    using o1 by (intro exI [of _ ?oi] conjI)
  have margin: "flt (fsub (score (ev_goal (23 / 4))) (score (ev_ball near_tie)))
       (Fin (switch_penalty tie_config + persistence_bonus tie_config))"
    by (simp add: ev_ball_def ev_goal_def fsub_def tie_config_def default_config_def near_tie_def)
  show ?thesis
    by (intro conjI f(3) o0 ex margin) (simp_all add: demo_same_focus)
qed

section \<open>Properties of the pipeline\<close>

lemma update_absent: "k \<notin> fst ` set al \<Longrightarrow> AList.update k v al = al @ [(k, v)]"
  by (induction al) auto

lemma fill_players_keys:
  "fill_players pids rpos idx plys lastp = Inr (plys', lastp') \<Longrightarrow> distinct pids \<Longrightarrow>
     set pids \<inter> fst ` set plys = {} \<Longrightarrow> map fst plys' = map fst plys @ pids"
proof (induction pids arbitrary: plys lastp)
  case Nil
  then show ?case by simp
next
  case (Cons q pids)
  have q: "q \<notin> fst ` set plys" using Cons.prems(3) by auto
  show ?case
  proof (cases "map_of rpos q")
    case None
    then obtain p where lq: "map_of lastp q = Some p"
      and rec: "fill_players pids rpos idx (AList.update q p plys) lastp = Inr (plys', lastp')"
      using Cons.prems(1) by (auto split: option.splits)
    have "set pids \<inter> fst ` set (AList.update q p plys) = {}"
      using Cons.prems(2,3) q by (auto simp: update_absent)
    from Cons.IH [OF rec _ this] Cons.prems(2) q show ?thesis
      by (simp add: update_absent)
  next
    case (Some pos)
    then have rec: "fill_players pids rpos idx (AList.update q pos plys) (AList.update q pos lastp)
                      = Inr (plys', lastp')"
      using Cons.prems(1) by simp
    have "set pids \<inter> fst ` set (AList.update q pos plys) = {}"
      using Cons.prems(2,3) q by (auto simp: update_absent)
    from Cons.IH [OF rec _ this] Cons.prems(2) q show ?thesis
      by (simp add: update_absent)
  qed
qed

lemma canonical_Cons:
  "canonical P idx (fr # frs) \<longleftrightarrow>
     frame_idx fr = idx \<and> map fst (players fr) = P \<and> canonical P (Suc idx) frs"
  unfolding canonical_def
  by (auto simp: nth_Cons split: nat.splits)

lemma canon_loop_canonical:
  "canon_loop rfs idx P acc lastp lb lo = Inr frames \<Longrightarrow> distinct P \<Longrightarrow>
     \<exists>new. frames = acc @ new \<and> length new = length rfs \<and> canonical P idx new"
proof (induction rfs arbitrary: idx acc lastp lb lo)
  case Nil
  then show ?case by (simp add: canonical_def)
next
  case (Cons rf rfs)
  from Cons.prems(1) obtain plys lastp' where
    fp: "fill_players P (player_pos rf) idx [] lastp = Inr (plys, lastp')"
    by (auto split: sum.splits)
  from Cons.prems(1) fp obtain fr lb' lo' where
    rec: "canon_loop rfs (idx + 1) P (acc @ [fr]) lastp' lb' lo' = Inr frames"
    and fr: "players fr = plys" "frame_idx fr = idx"
    by (auto split: option.splits)
  from Cons.IH [OF rec Cons.prems(2)] obtain new where
    new: "frames = (acc @ [fr]) @ new" "length new = length rfs" "canonical P (idx + 1) new"
    by blast
  have "map fst plys = P" using fill_players_keys [OF fp Cons.prems(2)] by simp
  with new fr have "canonical P idx (fr # new)" by (simp add: canonical_Cons)
  with new show ?case by (intro exI [of _ "fr # new"]) simp
qed

lemma canonicalize_canonical:
  assumes "canonicalize_frames raw = Inr (frames, P)" "distinct P"
  shows "length frames = length raw \<and> canonical P 0 frames \<and> frames \<noteq> [] \<and>
         P = map fst (player_pos (hd raw))"
proof -
  from assms(1) obtain rf rest where raw: "raw = rf # rest"
    by (cases raw) (auto simp: canonicalize_frames_def)
  from assms(1) raw have P: "P = map fst (player_pos rf)"
    and cl: "canon_loop raw 0 P [] [] None None = Inr frames"
    by (auto simp: canonicalize_frames_def Let_def split: sum.splits)
  from canon_loop_canonical [OF cl assms(2)] raw P show ?thesis by auto
qed

lemma update_keys_set: "fst ` set (AList.update k v al) = insert k (fst ` set al)"
  by (induction al) auto

lemma canonical_keys: "canonical P idx frames \<Longrightarrow> fr \<in> set frames \<Longrightarrow> map fst (players fr) = P"
  by (auto simp: canonical_def in_set_conv_nth)

lemma lookup_ok: "k \<in> fst ` set d \<Longrightarrow> \<exists>v. lookup d k = Inr v \<and> map_of d k = Some v"
  by (cases "map_of d k") (auto simp: lookup_def map_of_eq_None_iff)

lemma max_displacement_ok:
  "fst ` set cur \<subseteq> fst ` set prev \<Longrightarrow> \<exists>d. max_displacement cur prev dmax = Inr d"
proof (induction cur arbitrary: dmax)
  case Nil
  then show ?case by simp
next
  case (Cons e cur)
  obtain pid x y where e: "e = (pid, (x, y))" by (cases e) auto
  from Cons.prems e have "pid \<in> fst ` set prev" by auto
  from lookup_ok [OF this] obtain x0 y0 where "lookup prev pid = Inr (x0, y0)" by force
  with Cons.IH Cons.prems e show ?case by (simp add: Let_def)
qed

lemma pseudotime_loop_ok:
  "\<forall>fr\<in>set (prev # rest). map fst (players fr) = P \<Longrightarrow>
     \<exists>dts ts. pseudotime_loop cfg prev rest t = Inr (dts, ts) \<and>
              length dts = length rest \<and> length ts = length rest"
proof (induction rest arbitrary: prev t)
  case Nil
  then show ?case by simp
next
  case (Cons cur rest)
  have "map fst (players cur) = P" "map fst (players prev) = P" using Cons.prems by simp_all
  then have "set (map fst (players cur)) \<subseteq> set (map fst (players prev))" by simp
  then have "fst ` set (players cur) \<subseteq> fst ` set (players prev)" by simp
  from max_displacement_ok [OF this, of 0] obtain dmax where
    d: "max_displacement (players cur) (players prev) 0 = Inr dmax" by blast
  have "\<forall>fr\<in>set (cur # rest). map fst (players fr) = P" using Cons.prems by simp
  from Cons.IH [OF this] obtain dts ts where
    "pseudotime_loop cfg cur rest
       (t + max (min_dt cfg) (dmax / max (max_player_speed cfg) (1 / 10 ^ 6))) = Inr (dts, ts)"
    "length dts = length rest" "length ts = length rest" by blast
  with d show ?case by (simp add: Let_def)
qed

lemma infer_pseudotime_ok:
  assumes "frames \<noteq> []" "\<forall>fr\<in>set frames. map fst (players fr) = P"
  shows "\<exists>dt t_rel. infer_pseudotime frames cfg = Inr (dt, t_rel) \<and>
           length dt = length frames \<and> length t_rel = length frames"
proof -
  from assms(1) obtain f0 rest where fr: "frames = f0 # rest" by (cases frames) auto
  from pseudotime_loop_ok [of f0 rest P cfg 0] assms(2) fr obtain dts ts where
    "pseudotime_loop cfg f0 rest 0 = Inr (dts, ts)" "length dts = length rest"
    "length ts = length rest" by auto
  with fr show ?thesis by (simp add: infer_pseudotime_def)
qed

lemma frame_velocities_ok:
  "fst ` set cur \<subseteq> fst ` set prev \<Longrightarrow>
     \<exists>v'. frame_velocities cur prev denom v = Inr v' \<and> fst ` set v' = fst ` set v \<union> fst ` set cur"
proof (induction cur arbitrary: v)
  case Nil
  then show ?case by simp
next
  case (Cons e cur)
  obtain pid x y where e: "e = (pid, (x, y))" by (cases e) auto
  from Cons.prems e have "pid \<in> fst ` set prev" by auto
  from lookup_ok [OF this] obtain x0 y0 where l: "lookup prev pid = Inr (x0, y0)" by force
  from Cons.prems have "fst ` set cur \<subseteq> fst ` set prev" by auto
  from Cons.IH [OF this, of "AList.update pid ((x - x0) / denom, (y - y0) / denom) v"]
  obtain v' where "frame_velocities cur prev denom
      (AList.update pid ((x - x0) / denom, (y - y0) / denom) v) = Inr v'"
    "fst ` set v' = fst ` set (AList.update pid ((x - x0) / denom, (y - y0) / denom) v)
                    \<union> fst ` set cur" by blast
  with l e show ?case by (auto simp: update_keys_set)
qed

lemma velocities_loop_ok:
  "\<forall>fr\<in>set (prev # rest). map fst (players fr) = P \<Longrightarrow> length dts = length rest \<Longrightarrow>
     \<exists>v'. velocities_loop prev rest dts i v = Inr v' \<and>
       (\<forall>k. (i \<le> k \<and> k < i + length rest \<longrightarrow>
               (\<exists>vk. map_of v' k = Some vk \<and> fst ` set vk = set P)) \<and>
            (k < i \<longrightarrow> map_of v' k = map_of v k))"
proof (induction rest arbitrary: prev dts i v)
  case Nil
  then show ?case by auto
next
  case (Cons cur rest)
  from Cons.prems(2) obtain dt_i dts' where dts: "dts = dt_i # dts'" "length dts' = length rest"
    by (cases dts) auto
  have keys: "map fst (players cur) = P" "map fst (players prev) = P" using Cons.prems(1) by simp_all
  then have "set (map fst (players cur)) \<subseteq> set (map fst (players prev))" by simp
  then have sub: "fst ` set (players cur) \<subseteq> fst ` set (players prev)" by simp
  from frame_velocities_ok [OF sub, of "max dt_i (1 / 10 ^ 6)" "[]"] obtain v_i where
    vi: "frame_velocities (players cur) (players prev) (max dt_i (1 / 10 ^ 6)) [] = Inr v_i"
    "fst ` set v_i = fst ` set (players cur)" by auto
  have vik: "fst ` set v_i = set P" using vi(2) keys(1) by (metis set_map)
  have "\<forall>fr\<in>set (cur # rest). map fst (players fr) = P" using Cons.prems(1) by simp
  from Cons.IH [OF this dts(2), of "i + 1" "AList.update i v_i v"] obtain v' where
    v': "velocities_loop cur rest dts' (i + 1) (AList.update i v_i v) = Inr v'"
    and ih: "\<forall>k. (i + 1 \<le> k \<and> k < i + 1 + length rest \<longrightarrow>
               (\<exists>vk. map_of v' k = Some vk \<and> fst ` set vk = set P)) \<and>
            (k < i + 1 \<longrightarrow> map_of v' k = map_of (AList.update i v_i v) k)"
    by blast
  have "(i \<le> k \<and> k < i + length (cur # rest) \<longrightarrow>
               (\<exists>vk. map_of v' k = Some vk \<and> fst ` set vk = set P)) \<and>
            (k < i \<longrightarrow> map_of v' k = map_of v k)" for k
  proof (cases "k = i")
    case True
    with ih have "map_of v' k = Some v_i" by (simp add: update_conv')
    with vik True show ?thesis by simp
  next
    case False
    with ih [rule_format, of k] show ?thesis by (auto simp: update_conv')
  qed
  with v' vi(1) dts show ?case by (simp add: Let_def)
qed

lemma compute_velocities_ok:
  assumes "frames \<noteq> []" "\<forall>fr\<in>set frames. map fst (players fr) = P"
    and "length dt = length frames"
  shows "\<exists>v. compute_velocities frames dt = Inr v \<and>
           (\<forall>k<length frames. \<exists>vk. map_of v k = Some vk \<and> fst ` set vk = set P)"
proof -
  from assms(1) obtain f0 rest where fr: "frames = f0 # rest" by (cases frames) auto
  let ?v0 = "[(0::nat, map (\<lambda>pid. (pid, (0::real, 0::real))) (map fst (players f0)))]"
  have len: "length (tl dt) = length rest" using assms(3) fr by simp
  from velocities_loop_ok [of f0 rest P "tl dt" 1 ?v0] assms(2) fr len obtain v' where
    v': "velocities_loop f0 rest (tl dt) 1 ?v0 = Inr v'"
    and c: "\<forall>k. (1 \<le> k \<and> k < 1 + length rest \<longrightarrow>
               (\<exists>vk. map_of v' k = Some vk \<and> fst ` set vk = set P)) \<and>
            (k < 1 \<longrightarrow> map_of v' k = map_of ?v0 k)"
    by auto
  have k0: "map fst (players f0) = P" using assms(2) fr by simp
  have "\<exists>vk. map_of v' k = Some vk \<and> fst ` set vk = set P" if "k < length frames" for k
  proof (cases k)
    case 0
    with c have "map_of v' k = Some (map (\<lambda>pid. (pid, (0, 0))) P)" using k0 by simp
    moreover have "fst ` set (map (\<lambda>pid. (pid, (0::real, 0::real))) P) = set P" by force
    ultimately show ?thesis by blast
  next
    case (Suc n)
    with that fr c show ?thesis by simp
  qed
  with v' fr assms(3) show ?thesis by (simp add: compute_velocities_def)
qed

lemma build_nodes_ok:
  "fst ` set plys \<subseteq> fst ` set v_i \<Longrightarrow> distinct (map fst plys) \<Longrightarrow>
     fst ` set plys \<inter> fst ` set nds = {} \<Longrightarrow>
     \<exists>nds'. build_nodes plys v_i pt pr nds = Inr nds' \<and> map fst nds' = map fst nds @ map fst plys"
proof (induction plys arbitrary: nds)
  case Nil
  then show ?case by simp
next
  case (Cons e plys)
  obtain pid p where e: "e = (pid, p)" by (cases e)
  from Cons.prems(1) e have "pid \<in> fst ` set v_i" by auto
  from lookup_ok [OF this] obtain vel where l: "lookup v_i pid = Inr vel" by blast
  let ?n = "\<lparr>n_player_id = pid, n_team = team_of pt pid, n_role = role_of pr pid,
             n_pos = p, n_vel = vel\<rparr>"
  have pid: "pid \<notin> fst ` set nds" using Cons.prems(3) e by auto
  have 1: "fst ` set plys \<subseteq> fst ` set v_i" using Cons.prems(1) by auto
  have 2: "distinct (map fst plys)" using Cons.prems(2) by simp
  have 3: "fst ` set plys \<inter> fst ` set (AList.update pid ?n nds) = {}"
    using Cons.prems(2,3) e by (auto simp: update_keys_set)
  from Cons.IH [OF 1 2 3] l e pid show ?case by (simp add: update_absent)
qed

lemma pair_edges_ok:
  "fst ea \<in> K \<Longrightarrow> e \<in> set (pair_edges cfg pt ea eb) \<Longrightarrow> edge_ok K e"
  by (auto simp: pair_edges_def Let_def edge_ok_def split: if_splits)

lemma proximity_edges_ok:
  assumes "e \<in> set (proximity_edges cfg pt plys)"
  shows "edge_ok (fst ` set plys) e"
proof -
  from assms obtain a b where "a < length plys" "e \<in> set (pair_edges cfg pt (plys ! a) (plys ! b))"
    by (auto simp: proximity_edges_def split: if_splits)
  moreover from this(1) have "fst (plys ! a) \<in> fst ` set plys" by simp
  ultimately show ?thesis using pair_edges_ok by blast
qed

lemma ball_link_edges_ok:
  "e \<in> set (ball_link_edges b plys) \<Longrightarrow> edge_ok (fst ` set plys) e"
  by (force simp: ball_link_edges_def edge_ok_def)

lemma build_graph_ok:
  assumes "map fst (players fr) = P" "distinct P" "frame_idx fr < length t_rel"
    and "map_of v (frame_idx fr) = Some vk" "fst ` set vk = set P"
  shows "\<exists>g. build_graph fr t_rel v pt pr cfg = Inr g \<and> graph_ok P g \<and>
             g_frame_idx g = frame_idx fr \<and> g_ball_pos g = ball_pos fr"
proof -
  have keys: "fst ` set (players fr) = set P" using assms(1) by (metis set_map)
  have 1: "fst ` set (players fr) \<subseteq> fst ` set vk" using keys assms(5) by simp
  have 2: "distinct (map fst (players fr))" using assms(1,2) by simp
  from build_nodes_ok [OF 1 2, of "[]" pt pr] obtain nds where
    nds: "build_nodes (players fr) vk pt pr [] = Inr nds" "map fst nds = map fst (players fr)"
    by auto
  have "\<forall>e\<in>set (proximity_edges cfg pt (players fr) @ ball_link_edges (ball_pos fr) (players fr)).
          edge_ok (set P) e"
    using proximity_edges_ok [of _ cfg pt "players fr"]
      ball_link_edges_ok [of _ "ball_pos fr" "players fr"] keys by auto
  with nds assms(1,3,4) show ?thesis
    by (simp add: build_graph_def Let_def graph_ok_def)
qed

lemma build_frame_graphs_ok:
  assumes "distinct P" and "\<forall>fr\<in>set frames. map fst (players fr) = P \<and>
       frame_idx fr < length t_rel \<and>
       (\<exists>vk. map_of v (frame_idx fr) = Some vk \<and> fst ` set vk = set P)"
  shows "\<exists>gs. build_frame_graphs frames t_rel v pt pr cfg = Inr gs \<and>
           length gs = length frames \<and>
           (\<forall>i<length frames. graph_ok P (gs ! i) \<and> g_frame_idx (gs ! i) = frame_idx (frames ! i) \<and>
                               g_ball_pos (gs ! i) = ball_pos (frames ! i))"
  using assms(2)
proof (induction frames)
  case Nil
  then show ?case by simp
next
  case (Cons fr frames)
  from Cons.prems obtain vk where
    fr: "map fst (players fr) = P" "frame_idx fr < length t_rel"
    "map_of v (frame_idx fr) = Some vk" "fst ` set vk = set P" by auto
  from build_graph_ok [OF fr(1) assms(1) fr(2,3,4), of pt pr cfg] obtain g where
    g: "build_graph fr t_rel v pt pr cfg = Inr g" "graph_ok P g" "g_frame_idx g = frame_idx fr"
    "g_ball_pos g = ball_pos fr"
    by blast
  from Cons.IH Cons.prems obtain gs where
    gs: "build_frame_graphs frames t_rel v pt pr cfg = Inr gs" "length gs = length frames"
    "\<forall>i<length frames. graph_ok P (gs ! i) \<and> g_frame_idx (gs ! i) = frame_idx (frames ! i) \<and>
                               g_ball_pos (gs ! i) = ball_pos (frames ! i)"
    by auto
  have "\<forall>i<length (fr # frames). graph_ok P ((g # gs) ! i) \<and>
          g_frame_idx ((g # gs) ! i) = frame_idx ((fr # frames) ! i) \<and>
          g_ball_pos ((g # gs) ! i) = ball_pos ((fr # frames) ! i)"
    using g gs(3) by (auto simp: nth_Cons split: nat.splits)
  with g(1) gs(1,2) show ?case by simp
qed

lemma update_keys_present: "k \<in> fst ` set al \<Longrightarrow> map fst (AList.update k v al) = map fst al"
  by (induction al) auto

lemma summary_step_ok:
  assumes "edge_ok (fst ` set out) e"
  shows "\<exists>out'. summary_step out e = Inr out' \<and> map fst out' = map fst out"
proof -
  from assms have srcin: "src e \<in> fst ` set out" by (simp add: edge_ok_def)
  from lookup_ok [OF srcin] obtain s where s: "lookup out (src e) = Inr s" by blast
  show ?thesis
  proof (cases "etype e")
    case BALL_LINK
    with assms obtain bd where "lookup (e_features e) ''ball_d'' = Inr bd"
      by (auto simp: edge_ok_def lookup_def)
    with s BALL_LINK srcin show ?thesis
      by (simp add: summary_step_def update_keys_present)
  next
    case TEAM_NEAR
    with assms obtain d where "lookup (e_features e) ''d'' = Inr d"
      by (auto simp: edge_ok_def lookup_def)
    with s TEAM_NEAR srcin show ?thesis
      by (simp add: summary_step_def Let_def update_keys_present)
  next
    case OPP_NEAR
    with assms obtain d where "lookup (e_features e) ''d'' = Inr d"
      by (auto simp: edge_ok_def lookup_def)
    with s OPP_NEAR srcin show ?thesis
      by (simp add: summary_step_def Let_def update_keys_present)
  qed
qed

lemma summary_scan_ok:
  "\<forall>e\<in>set es. edge_ok (fst ` set out) e \<Longrightarrow>
     \<exists>out'. summary_scan es out = Inr out' \<and> map fst out' = map fst out"
proof (induction es arbitrary: out)
  case Nil
  then show ?case by simp
next
  case (Cons e es)
  from summary_step_ok [of out e] Cons.prems obtain out1 where
    o1: "summary_step out e = Inr out1" "map fst out1 = map fst out" by auto
  then have "fst ` set out1 = fst ` set out" by (metis set_map)
  with Cons.prems have "\<forall>e\<in>set es. edge_ok (fst ` set out1) e" by simp
  from Cons.IH [OF this] o1 show ?case by simp
qed

lemma summarize_ok:
  assumes "graph_ok P g"
  shows "\<exists>sm. summarize_pressure_support g cfg = Inr sm \<and> map fst sm = P"
proof -
  have k: "map fst (summary_init g) = P"
    using assms by (simp add: summary_init_def graph_ok_def case_prod_beta comp_def)
  then have "fst ` set (summary_init g) = set P" by (metis set_map)
  with assms have "\<forall>e\<in>set (edges g). edge_ok (fst ` set (summary_init g)) e"
    by (simp add: graph_ok_def)
  from summary_scan_ok [OF this] k show ?thesis
    by (simp add: summarize_pressure_support_def)
qed

lemma nearest_opponent_loop_id:
  "fst (nearest_opponent_loop nds pid team p pt best) = Some oid \<Longrightarrow>
     oid \<in> fst ` set nds \<or> fst best = Some oid"
proof (induction nds arbitrary: best)
  case Nil
  then show ?case by simp
next
  case (Cons e nds)
  obtain other n where e: "e = (other, n)" by (cases e)
  obtain bid bd where best: "best = (bid, bd)" by (cases best)
  show ?case
  proof (cases "other \<noteq> pid \<and> team_of pt other \<noteq> team \<and> flt (Fin (dist_vec p (n_pos n))) bd")
    case True
    with Cons.prems e best
    have "fst (nearest_opponent_loop nds pid team p pt (Some other, Fin (dist_vec p (n_pos n))))
            = Some oid" by (simp add: Let_def)
    from Cons.IH [OF this] e show ?thesis by auto
  next
    case False
    with Cons.prems e best
    have "fst (nearest_opponent_loop nds pid team p pt best) = Some oid"
      by (auto simp: Let_def split: if_splits)
    from Cons.IH [OF this] show ?thesis by auto
  qed
qed

lemma best_support_loop_id:
  "fst (best_support_loop nds pid team p pt cfg best) = Some oid \<Longrightarrow>
     oid \<in> fst ` set nds \<or> fst best = Some oid"
proof (induction nds arbitrary: best)
  case Nil
  then show ?case by simp
next
  case (Cons e nds)
  obtain other n where e: "e = (other, n)" by (cases e)
  obtain bid bs where best: "best = (bid, bs)" by (cases best)
  define sc where "sc = 2 * (if is_ahead (n_pos n) p (attack_direction cfg) then 1 else 0)
      + 1 * (if in_forward_cone p (n_pos n) (attack_direction cfg) (3 / 10) then 1 else 0)
      - (15 / 100) * dist_vec p (n_pos n)"
  show ?case
  proof (cases "other \<noteq> pid \<and> team_of pt other = team \<and> sc > bs")
    case True
    with Cons.prems e best
    have "fst (best_support_loop nds pid team p pt cfg (Some other, sc)) = Some oid"
      by (simp add: Let_def sc_def)
    from Cons.IH [OF this] e show ?thesis by auto
  next
    case False
    with Cons.prems e best
    have "fst (best_support_loop nds pid team p pt cfg best) = Some oid"
      by (auto simp: Let_def sc_def split: if_splits)
    from Cons.IH [OF this] show ?thesis by auto
  qed
qed

lemma ball_candidate_ok:
  "pid \<in> fst ` set sm \<Longrightarrow> \<exists>c. ball_candidate g pid cfg sm = Inr c"
  using lookup_ok [of pid sm] by (auto simp: ball_candidate_def)

lemma opp_candidate_ok:
  assumes "pid \<in> fst ` set sm" "pid \<in> fst ` set (nodes g)"
  shows "\<exists>c. opp_candidate g pid pt cfg sm = Inr c"
proof (cases "enable_marking_threats cfg")
  case False
  then show ?thesis by (simp add: opp_candidate_def)
next
  case True
  from lookup_ok [OF assms(2)] obtain nd where nd: "lookup (nodes g) pid = Inr nd" by blast
  from lookup_ok [OF assms(1)] obtain s where s: "lookup sm pid = Inr s" by blast
  let ?r = "nearest_opponent_loop (nodes g) pid (team_of pt pid) (n_pos nd) pt (None, PInf)"
  have no: "nearest_opponent g pid pt = Inr ?r" using nd by (simp add: nearest_opponent_def)
  show ?thesis
  proof (cases "fst ?r")
    case None
    then show ?thesis using True no by (cases ?r) (simp add: opp_candidate_def)
  next
    case (Some oid)
    from nearest_opponent_loop_id [OF this] have "oid \<in> fst ` set (nodes g)" by simp
    from lookup_ok [OF this] obtain on where "lookup (nodes g) oid = Inr on" by blast
    with Some True no s show ?thesis by (cases ?r) (simp add: opp_candidate_def)
  qed
qed

lemma mate_candidate_ok:
  assumes "pid \<in> fst ` set sm" "pid \<in> fst ` set (nodes g)"
  shows "\<exists>c. mate_candidate g pid pt cfg sm = Inr c"
proof (cases "enable_pass_targets cfg")
  case False
  then show ?thesis by (simp add: mate_candidate_def)
next
  case True
  from lookup_ok [OF assms(2)] obtain nd where nd: "lookup (nodes g) pid = Inr nd" by blast
  from lookup_ok [OF assms(1)] obtain s where s: "lookup sm pid = Inr s" by blast
  let ?r = "best_support_loop (nodes g) pid (team_of pt pid) (n_pos nd) pt cfg (None, - (10 ^ 9))"
  have no: "best_support_teammate g pid pt cfg = Inr ?r"
    using nd by (simp add: best_support_teammate_def)
  show ?thesis
  proof (cases "fst ?r")
    case None
    then show ?thesis using True no by (cases ?r) (simp add: mate_candidate_def)
  next
    case (Some oid)
    from best_support_loop_id [OF this] have "oid \<in> fst ` set (nodes g)" by simp
    from lookup_ok [OF this] obtain on where "lookup (nodes g) oid = Inr on" by blast
    with Some True no s show ?thesis by (cases ?r) (simp add: mate_candidate_def)
  qed
qed

lemma space_point_ok:
  "pitch_length ptch \<noteq> 0 \<Longrightarrow> \<exists>b. space_point g ptch pid pt cfg p x y best = Inr b"
  by (simp add: space_point_def Let_def)

lemma coord_ok_D:
  assumes "coord_ok d lo hi" "lo \<le> y" "y \<le> hi + 1 / 10 ^ 6"
  shows "1 / 2 ^ 1074 \<le> d" and "\<bar>y\<bar> \<le> d * 2 ^ 52" and "- (2 ^ 1023) \<le> y"
proof -
  define m where "m = max \<bar>lo\<bar> (\<bar>hi\<bar> + 1)"
  from assms(1) have c: "1 / 2 ^ 1074 \<le> d" "m \<le> d * 2 ^ 51" "m \<le> 2 ^ 1023"
    by (simp_all add: coord_ok_def m_def Let_def)
  show "1 / 2 ^ 1074 \<le> d"
    by (rule c(1))
  have "(0::real) < 1 / 2 ^ 1074"
    by simp
  with c(1) have d: "0 < d"
    by linarith
  have ym: "\<bar>y\<bar> \<le> m"
    using assms(2,3) by (simp add: m_def abs_if max_def split: if_splits; linarith)
  have "d * 2 ^ 51 \<le> d * 2 ^ 52"
    using d by simp
  with ym c(2) show "\<bar>y\<bar> \<le> d * 2 ^ 52"
    by linarith
  from ym c(3) show "- (2 ^ 1023) \<le> y"
    by linarith
qed

lemma space_loop_y_grid:
  assumes "pitch_length ptch \<noteq> 0" "coord_ok (space_grid_dy cfg) y0 y1"
  shows "y0 \<le> y \<Longrightarrow> \<exists>k::int. y = of_int k / 2 ^ 1074 \<Longrightarrow>
         y1 + 1 / 10 ^ 6 - y < of_nat n / 2 ^ 1074 \<Longrightarrow>
           \<exists>b. space_loop_y g ptch pid pt cfg p y1 x y best = Some (Inr b)"
proof (induction n arbitrary: y best)
  case 0
  then have "\<not> y \<le> y1 + 1 / 10 ^ 6"
    by simp
  then show ?case
    by (subst space_loop_y.simps) simp
next
  case (Suc n)
  show ?case
  proof (cases "y \<le> y1 + 1 / 10 ^ 6")
    case False
    then show ?thesis
      by (subst space_loop_y.simps) simp
  next
    case True
    from space_point_ok [OF assms(1)] obtain b where
      b: "space_point g ptch pid pt cfg p x y best = Inr b"
      by blast
    from round64_step [OF coord_ok_D [OF assms(2) Suc.prems(1) True]]
    show ?thesis
    proof
      assume "round64 (y + space_grid_dy cfg) = PInf"
      with True b show ?thesis
        by (subst space_loop_y.simps) simp
    next
      assume "\<exists>y'. round64 (y + space_grid_dy cfg) = Fin y' \<and> y < y' \<and>
                (\<exists>k::int. y' = of_int k / 2 ^ 1074)"
      then obtain y' and k' :: int where
        y': "round64 (y + space_grid_dy cfg) = Fin y'" "y < y'" "y' = of_int k' / 2 ^ 1074"
        by blast
      from Suc.prems(2) obtain k :: int where k: "y = of_int k / 2 ^ 1074"
        by blast
      from grid_next [of k k'] y'(2,3) k have "y + 1 / 2 ^ 1074 \<le> y'"
        by simp
      moreover have "of_nat (Suc n) / 2 ^ 1074 = (of_nat n / 2 ^ 1074 + 1 / 2 ^ 1074 :: real)"
        by (simp add: add_divide_distrib)
      ultimately have "y1 + 1 / 10 ^ 6 - y' < of_nat n / 2 ^ 1074"
        using Suc.prems(3) by linarith
      moreover have "y0 \<le> y'"
        using Suc.prems(1) y'(2) by linarith
      moreover have "\<exists>k::int. y' = of_int k / 2 ^ 1074"
        using y'(3) by blast
      ultimately obtain b' where
        "space_loop_y g ptch pid pt cfg p y1 x y' b = Some (Inr b')"
        using Suc.IH [of y' b] by blast
      with True b y'(1) show ?thesis
        by (subst space_loop_y.simps) simp
    qed
  qed
qed

lemma space_loop_y_ok:
  assumes "pitch_length ptch \<noteq> 0" "coord_ok (space_grid_dy cfg) y0 y1" "y0 \<le> y"
  shows "\<exists>b. space_loop_y g ptch pid pt cfg p y1 x y best = Some (Inr b)"
proof (cases "y \<le> y1 + 1 / 10 ^ 6")
  case False
  then show ?thesis
    by (subst space_loop_y.simps) simp
next
  case True
  from space_point_ok [OF assms(1)] obtain b where
    b: "space_point g ptch pid pt cfg p x y best = Inr b"
    by blast
  from round64_step [OF coord_ok_D [OF assms(2,3) True]]
  show ?thesis
  proof
    assume "round64 (y + space_grid_dy cfg) = PInf"
    with True b show ?thesis
      by (subst space_loop_y.simps) simp
  next
    assume "\<exists>y'. round64 (y + space_grid_dy cfg) = Fin y' \<and> y < y' \<and>
              (\<exists>k::int. y' = of_int k / 2 ^ 1074)"
    then obtain y' where
      y': "round64 (y + space_grid_dy cfg) = Fin y'" "y < y'" "\<exists>k::int. y' = of_int k / 2 ^ 1074"
      by blast
    have "(0::real) < 1 / 2 ^ 1074"
      by simp
    from ex_less_of_nat_mult [OF this, of "y1 + 1 / 10 ^ 6 - y'"] obtain n where
      "y1 + 1 / 10 ^ 6 - y' < of_nat n / 2 ^ 1074"
      by auto
    moreover have "y0 \<le> y'"
      using assms(3) y'(2) by linarith
    ultimately obtain b' where
      "space_loop_y g ptch pid pt cfg p y1 x y' b = Some (Inr b')"
      using space_loop_y_grid [OF assms(1,2) _ y'(3)] by blast
    with True b y'(1) show ?thesis
      by (subst space_loop_y.simps) simp
  qed
qed

lemma space_loop_x_grid:
  assumes "pitch_length ptch \<noteq> 0" "coord_ok (space_grid_dx cfg) x0 x1"
    and "coord_ok (space_grid_dy cfg) y0 y1"
  shows "x0 \<le> x \<Longrightarrow> \<exists>k::int. x = of_int k / 2 ^ 1074 \<Longrightarrow>
         x1 + 1 / 10 ^ 6 - x < of_nat n / 2 ^ 1074 \<Longrightarrow>
           \<exists>b. space_loop_x g ptch pid pt cfg p x1 y0 y1 x best = Some (Inr b)"
proof (induction n arbitrary: x best)
  case 0
  then have "\<not> x \<le> x1 + 1 / 10 ^ 6"
    by simp
  then show ?case
    by (subst space_loop_x.simps) simp
next
  case (Suc n)
  show ?case
  proof (cases "x \<le> x1 + 1 / 10 ^ 6")
    case False
    then show ?thesis
      by (subst space_loop_x.simps) simp
  next
    case True
    from space_loop_y_ok [OF assms(1,3) order_refl] obtain b where
      b: "space_loop_y g ptch pid pt cfg p y1 x y0 best = Some (Inr b)"
      by blast
    from round64_step [OF coord_ok_D [OF assms(2) Suc.prems(1) True]]
    show ?thesis
    proof
      assume "round64 (x + space_grid_dx cfg) = PInf"
      with True b show ?thesis
        by (subst space_loop_x.simps) simp
    next
      assume "\<exists>x'. round64 (x + space_grid_dx cfg) = Fin x' \<and> x < x' \<and>
                (\<exists>k::int. x' = of_int k / 2 ^ 1074)"
      then obtain x' and k' :: int where
        x': "round64 (x + space_grid_dx cfg) = Fin x'" "x < x'" "x' = of_int k' / 2 ^ 1074"
        by blast
      from Suc.prems(2) obtain k :: int where k: "x = of_int k / 2 ^ 1074"
        by blast
      from grid_next [of k k'] x'(2,3) k have "x + 1 / 2 ^ 1074 \<le> x'"
        by simp
      moreover have "of_nat (Suc n) / 2 ^ 1074 = (of_nat n / 2 ^ 1074 + 1 / 2 ^ 1074 :: real)"
        by (simp add: add_divide_distrib)
      ultimately have "x1 + 1 / 10 ^ 6 - x' < of_nat n / 2 ^ 1074"
        using Suc.prems(3) by linarith
      moreover have "x0 \<le> x'"
        using Suc.prems(1) x'(2) by linarith
      moreover have "\<exists>k::int. x' = of_int k / 2 ^ 1074"
        using x'(3) by blast
      ultimately obtain b' where
        "space_loop_x g ptch pid pt cfg p x1 y0 y1 x' b = Some (Inr b')"
        using Suc.IH [of x' b] by blast
      with True b x'(1) show ?thesis
        by (subst space_loop_x.simps) simp
    qed
  qed
qed

lemma space_loop_x_ok:
  assumes "pitch_length ptch \<noteq> 0" "coord_ok (space_grid_dx cfg) x0 x1"
    and "coord_ok (space_grid_dy cfg) y0 y1"
  shows "\<exists>b. space_loop_x g ptch pid pt cfg p x1 y0 y1 x0 best = Some (Inr b)"
proof (cases "x0 \<le> x1 + 1 / 10 ^ 6")
  case False
  then show ?thesis
    by (subst space_loop_x.simps) simp
next
  case True
  from space_loop_y_ok [OF assms(1,3) order_refl] obtain b where
    b: "space_loop_y g ptch pid pt cfg p y1 x0 y0 best = Some (Inr b)"
    by blast
  from round64_step [OF coord_ok_D [OF assms(2) order_refl True]]
  show ?thesis
  proof
    assume "round64 (x0 + space_grid_dx cfg) = PInf"
    with True b show ?thesis
      by (subst space_loop_x.simps) simp
  next
    assume "\<exists>x'. round64 (x0 + space_grid_dx cfg) = Fin x' \<and> x0 < x' \<and>
              (\<exists>k::int. x' = of_int k / 2 ^ 1074)"
    then obtain x' where
      x': "round64 (x0 + space_grid_dx cfg) = Fin x'" "x0 < x'"
      "\<exists>k::int. x' = of_int k / 2 ^ 1074"
      by blast
    have "(0::real) < 1 / 2 ^ 1074"
      by simp
    from ex_less_of_nat_mult [OF this, of "x1 + 1 / 10 ^ 6 - x'"] obtain n where
      "x1 + 1 / 10 ^ 6 - x' < of_nat n / 2 ^ 1074"
      by auto
    moreover have "x0 \<le> x'"
      using x'(2) by linarith
    ultimately obtain b' where
      "space_loop_x g ptch pid pt cfg p x1 y0 y1 x' b = Some (Inr b')"
      using space_loop_x_grid [OF assms _ x'(3)] by blast
    with True b x'(1) show ?thesis
      by (subst space_loop_x.simps) simp
  qed
qed

lemma space_candidate_ok:
  assumes "graph_grid_ok cfg ptch g" "map_of (nodes g) pid = Some nd"
  shows "\<exists>c. space_candidate g ptch pid pt cfg = Some (Inr c)"
proof (cases "enable_space_targets cfg")
  case False
  then show ?thesis
    by (simp add: space_candidate_def)
next
  case True
  have "(pid, nd) \<in> set (nodes g)"
    using assms(2) by (rule map_of_SomeD)
  with True assms(1) have pl: "pitch_length ptch \<noteq> 0" and w: "window_ok cfg ptch (n_pos nd)"
    by (auto simp: graph_grid_ok_def nodes_ok_def)
  have nd: "lookup (nodes g) pid = Inr nd"
    using assms(2) by (simp add: lookup_def)
  have "\<exists>r. best_open_space_anchor g ptch pid pt cfg = Some (Inr r)"
  proof (cases "attack_direction cfg > 0")
    case ad: True
    with w have c: "coord_ok (space_grid_dx cfg) (fst (n_pos nd))
                      (min (pitch_length ptch) (fst (n_pos nd) + 24))"
      "coord_ok (space_grid_dy cfg) (max 0 (snd (n_pos nd) - 18))
         (min (pitch_width ptch) (snd (n_pos nd) + 18))"
      by (simp_all add: window_ok_def Let_def)
    from space_loop_x_ok [OF pl c, of g pid pt "n_pos nd" "(None, Fin (- (10 ^ 9)))"]
    obtain ba bv where
      "space_loop_x g ptch pid pt cfg (n_pos nd) (min (pitch_length ptch) (fst (n_pos nd) + 24))
         (max 0 (snd (n_pos nd) - 18)) (min (pitch_width ptch) (snd (n_pos nd) + 18))
         (fst (n_pos nd)) (None, Fin (- (10 ^ 9))) = Some (Inr (ba, bv))"
      by force
    with nd ad show ?thesis
      by (cases ba) (simp_all add: best_open_space_anchor_def Let_def)
  next
    case ad: False
    with w have c: "coord_ok (space_grid_dx cfg) (max 0 (fst (n_pos nd) - 24)) (fst (n_pos nd))"
      "coord_ok (space_grid_dy cfg) (max 0 (snd (n_pos nd) - 18))
         (min (pitch_width ptch) (snd (n_pos nd) + 18))"
      by (simp_all add: window_ok_def Let_def)
    from space_loop_x_ok [OF pl c, of g pid pt "n_pos nd" "(None, Fin (- (10 ^ 9)))"]
    obtain ba bv where
      "space_loop_x g ptch pid pt cfg (n_pos nd) (fst (n_pos nd))
         (max 0 (snd (n_pos nd) - 18)) (min (pitch_width ptch) (snd (n_pos nd) + 18))
         (max 0 (fst (n_pos nd) - 24)) (None, Fin (- (10 ^ 9))) = Some (Inr (ba, bv))"
      by force
    with nd ad show ?thesis
      by (cases ba) (simp_all add: best_open_space_anchor_def Let_def)
  qed
  then obtain a v where "best_open_space_anchor g ptch pid pt cfg = Some (Inr (a, v))"
    by force
  with True show ?thesis
    by (cases a) (simp_all add: space_candidate_def)
qed

lemma generate_candidates_ok:
  assumes "graph_ok P g" "map fst sm = P" "graph_grid_ok cfg ptch g"
  shows "\<exists>c. generate_candidates_for_player g ptch pid pt cfg sm = Some (Inr c)"
proof (cases "map_of (nodes g) pid")
  case None
  then show ?thesis by (simp add: generate_candidates_for_player_def)
next
  case (Some nd)
  then have "pid \<in> fst ` set (nodes g)" by (metis map_of_eq_None_iff option.distinct(1))
  moreover have "fst ` set (nodes g) = set P" using assms(1) by (metis graph_ok_def set_map)
  moreover have "fst ` set sm = set P" using assms(2) by (metis set_map)
  ultimately have pn: "pid \<in> fst ` set (nodes g)" and ps: "pid \<in> fst ` set sm" by simp_all
  from ball_candidate_ok [OF ps] obtain c1 where c1: "ball_candidate g pid cfg sm = Inr c1" by blast
  from opp_candidate_ok [OF ps pn] obtain c2 where c2: "opp_candidate g pid pt cfg sm = Inr c2"
    by blast
  from mate_candidate_ok [OF ps pn] obtain c3 where c3: "mate_candidate g pid pt cfg sm = Inr c3"
    by blast
  from space_candidate_ok [OF assms(3) Some] obtain c4 where
    c4: "space_candidate g ptch pid pt cfg = Some (Inr c4)" by blast
  from Some c1 c2 c3 c4 show ?thesis by (simp add: generate_candidates_for_player_def)
qed

lemma score_loop_ok:
  assumes "pid \<in> fst ` set sm"
  shows "\<exists>sc. score_loop g pid p cs sm cfg role acc = Inr sc"
proof (induction cs arbitrary: acc)
  case Nil
  then show ?case by simp
next
  case (Cons c cs)
  from lookup_ok [OF assms] obtain s where "lookup sm pid = Inr s" by blast
  then obtain sv rs where "score_one g pid p c sm cfg role = Inr (sv, rs)"
    by (simp add: score_one_def Let_def) (metis surj_pair)
  with Cons.IH show ?case by simp
qed

lemma score_candidates_ok:
  assumes "graph_ok P g" "map fst sm = P"
  shows "\<exists>sc. score_candidates g pid cs sm cfg role = Inr sc"
proof (cases "map_of (nodes g) pid")
  case None
  then show ?thesis by (simp add: score_candidates_def)
next
  case (Some nd)
  then have "pid \<in> fst ` set (nodes g)" by (metis map_of_eq_None_iff option.distinct(1))
  moreover have "fst ` set (nodes g) = set P" using assms(1) by (metis graph_ok_def set_map)
  moreover have "fst ` set sm = set P" using assms(2) by (metis set_map)
  ultimately have ps: "pid \<in> fst ` set sm" by simp
  from score_loop_ok [OF ps, of g "n_pos nd" cs cfg role "[]"] Some show ?thesis
    by (auto simp: score_candidates_def)
qed

lemma score_players_ok:
  assumes "graph_ok P g" "map fst sm = P" "graph_grid_ok cfg ptch g"
  shows "set pids \<subseteq> fst ` set spp \<Longrightarrow>
           \<exists>spp'. score_players g sm pids ptch pt pr cfg spp = Some (Inr spp') \<and>
                  map fst spp' = map fst spp"
proof (induction pids arbitrary: spp)
  case Nil
  then show ?case by simp
next
  case (Cons pid pids)
  from generate_candidates_ok [OF assms] obtain cands where
    c: "generate_candidates_for_player g ptch pid pt cfg sm = Some (Inr cands)" by blast
  from score_candidates_ok [OF assms(1,2)] obtain scored where
    sc: "score_candidates g pid cands sm cfg (role_of pr pid) = Inr scored" by blast
  have pin: "pid \<in> fst ` set spp" using Cons.prems by simp
  from lookup_ok [OF pin] obtain d where d: "lookup spp pid = Inr d" by blast
  let ?spp1 = "AList.update pid (AList.update (g_frame_idx g) scored d) spp"
  have k1: "map fst ?spp1 = map fst spp" using pin by (rule update_keys_present)
  then have "fst ` set ?spp1 = fst ` set spp" by (metis set_map)
  with Cons.prems have "set pids \<subseteq> fst ` set ?spp1" by simp
  from Cons.IH [OF this] c sc d k1 show ?case by (simp add: Let_def)
qed

lemma score_graphs_ok:
  "\<forall>g\<in>set gs. graph_ok P g \<and> graph_grid_ok cfg ptch g \<Longrightarrow> set pids \<subseteq> fst ` set spp \<Longrightarrow>
     \<exists>spp'. score_graphs gs pids ptch pt pr cfg spp = Some (Inr spp') \<and>
            map fst spp' = map fst spp"
proof (induction gs arbitrary: spp)
  case Nil
  then show ?case by simp
next
  case (Cons g gs)
  have gok: "graph_ok P g" "graph_grid_ok cfg ptch g" using Cons.prems(1) by simp_all
  from summarize_ok [OF gok(1)] obtain sm where
    sm: "summarize_pressure_support g cfg = Inr sm" "map fst sm = P" by blast
  from score_players_ok [OF gok(1) sm(2) gok(2) Cons.prems(2)] obtain spp1 where
    s1: "score_players g sm pids ptch pt pr cfg spp = Some (Inr spp1)"
    "map fst spp1 = map fst spp" by blast
  then have "fst ` set spp1 = fst ` set spp" by (metis set_map)
  with Cons.prems have "set pids \<subseteq> fst ` set spp1"
    "\<forall>g\<in>set gs. graph_ok P g \<and> graph_grid_ok cfg ptch g" by simp_all
  from Cons.IH [OF this(2,1)] sm(1) s1 show ?case by simp
qed

lemma set_update_subset: "set (AList.update k v al) \<subseteq> insert (k, v) (set al)"
  by (induction al) auto

lemma build_nodes_pos:
  "build_nodes plys v_i pt pr nds = Inr nds' \<Longrightarrow> \<forall>e\<in>set nds. R (n_pos (snd e)) \<Longrightarrow>
     \<forall>e\<in>set plys. R (snd e) \<Longrightarrow> \<forall>e\<in>set nds'. R (n_pos (snd e))"
proof (induction plys arbitrary: nds)
  case Nil
  then show ?case by simp
next
  case (Cons e plys)
  obtain pid p where e: "e = (pid, p)" by (cases e)
  from Cons.prems(1) e obtain vel where
    rec: "build_nodes plys v_i pt pr
            (AList.update pid \<lparr>n_player_id = pid, n_team = team_of pt pid,
                                n_role = role_of pr pid, n_pos = p, n_vel = vel\<rparr> nds) = Inr nds'"
    by (auto split: sum.splits)
  let ?n = "\<lparr>n_player_id = pid, n_team = team_of pt pid, n_role = role_of pr pid,
             n_pos = p, n_vel = vel\<rparr>"
  have "R p" using Cons.prems(3) e by simp
  then have "\<forall>e\<in>set (AList.update pid ?n nds). R (n_pos (snd e))"
    using set_update_subset [of pid ?n nds] Cons.prems(2) by auto
  moreover have "\<forall>e\<in>set plys. R (snd e)" using Cons.prems(3) by simp
  ultimately show ?case using Cons.IH [OF rec] by blast
qed

lemma build_graph_pos:
  assumes "build_graph fr t_rel v pt pr cfg = Inr g" "\<forall>e\<in>set (players fr). R (snd e)"
  shows "nodes_ok R g"
proof (cases "map_of v (frame_idx fr)")
  case None
  with assms(1) have "nodes g = []"
    by (auto simp: build_graph_def Let_def split: if_splits)
  then show ?thesis by (simp add: nodes_ok_def)
next
  case (Some v_i)
  with assms(1) obtain nds where
    nds: "build_nodes (players fr) v_i pt pr [] = Inr nds" "nodes g = nds"
    by (auto simp: build_graph_def Let_def split: sum.splits if_splits)
  from build_nodes_pos [OF nds(1) _ assms(2)] nds(2) show ?thesis
    by (simp add: nodes_ok_def)
qed

lemma build_frame_graphs_pos:
  "build_frame_graphs frames t_rel v pt pr cfg = Inr gs \<Longrightarrow>
     \<forall>fr\<in>set frames. \<forall>e\<in>set (players fr). R (snd e) \<Longrightarrow> \<forall>g\<in>set gs. nodes_ok R g"
proof (induction frames arbitrary: gs)
  case Nil
  then show ?case by simp
next
  case (Cons fr frames)
  from Cons.prems(1) obtain g gs' where
    g: "build_graph fr t_rel v pt pr cfg = Inr g"
    "build_frame_graphs frames t_rel v pt pr cfg = Inr gs'" "gs = g # gs'"
    by (auto split: sum.splits)
  from build_graph_pos [OF g(1)] Cons.prems(2) have "nodes_ok R g" by simp
  moreover from Cons.IH [OF g(2)] Cons.prems(2) have "\<forall>g\<in>set gs'. nodes_ok R g" by simp
  ultimately show ?case using g(3) by simp
qed

lemma scoring_stage_ok:
  assumes "canonical P 0 frames" "frames \<noteq> []" "distinct P" "grid_ok cfg ptch frames"
  shows "\<exists>t_rel spp. scoring_stage frames ptch pt pr cfg = Some (Inr (t_rel, spp)) \<and>
           length t_rel = length frames \<and> map fst spp = P"
proof -
  have keys: "\<forall>fr\<in>set frames. map fst (players fr) = P"
    using assms(1) canonical_keys by blast
  from infer_pseudotime_ok [OF assms(2) keys] obtain dt t_rel where
    ip: "infer_pseudotime frames cfg = Inr (dt, t_rel)" "length dt = length frames"
    "length t_rel = length frames" by blast
  from compute_velocities_ok [OF assms(2) keys ip(2)] obtain v where
    cv: "compute_velocities frames dt = Inr v"
    "\<forall>k<length frames. \<exists>vk. map_of v k = Some vk \<and> fst ` set vk = set P" by blast
  have "\<forall>fr\<in>set frames. map fst (players fr) = P \<and> frame_idx fr < length t_rel \<and>
       (\<exists>vk. map_of v (frame_idx fr) = Some vk \<and> fst ` set vk = set P)"
  proof
    fix fr assume "fr \<in> set frames"
    then obtain i where i: "i < length frames" "fr = frames ! i" by (metis in_set_conv_nth)
    with assms(1) have "frame_idx fr = i" "map fst (players fr) = P"
      by (simp_all add: canonical_def)
    with i cv(2) ip(3) show "map fst (players fr) = P \<and> frame_idx fr < length t_rel \<and>
       (\<exists>vk. map_of v (frame_idx fr) = Some vk \<and> fst ` set vk = set P)" by simp
  qed
  from build_frame_graphs_ok [OF assms(3) this, of pt pr cfg] obtain gs where
    gs: "build_frame_graphs frames t_rel v pt pr cfg = Inr gs" "length gs = length frames"
    "\<forall>i<length frames. graph_ok P (gs ! i) \<and> g_frame_idx (gs ! i) = frame_idx (frames ! i) \<and>
                         g_ball_pos (gs ! i) = ball_pos (frames ! i)"
    by blast
  have gok1: "\<forall>g\<in>set gs. graph_ok P g" using gs(2,3) by (metis in_set_conv_nth)
  have "\<forall>g\<in>set gs. graph_grid_ok cfg ptch g"
  proof (cases "enable_space_targets cfg")
    case False
    then show ?thesis by (simp add: graph_grid_ok_def)
  next
    case True
    with assms(4) have pl: "pitch_length ptch \<noteq> 0"
      and w: "\<forall>fr\<in>set frames. \<forall>e\<in>set (players fr). window_ok cfg ptch (snd e)"
      by (simp_all add: grid_ok_def)
    from build_frame_graphs_pos [OF gs(1) w] pl show ?thesis
      by (simp add: graph_grid_ok_def)
  qed
  with gok1 have gok: "\<forall>g\<in>set gs. graph_ok P g \<and> graph_grid_ok cfg ptch g" by simp
  have hd: "map fst (players (hd frames)) = P" using keys assms(2) by simp
  define init :: "(string, (nat, scored_event list) dict) dict"
    where "init = map (\<lambda>pid. (pid, [])) P"
  have ki: "map fst init = P" by (simp add: init_def comp_def)
  then have "fst ` set init = set P" by (metis set_map)
  then have "set P \<subseteq> fst ` set init" by simp
  from score_graphs_ok [OF gok this, of pt pr] obtain spp where
    "score_graphs gs P ptch pt pr cfg init = Some (Inr spp)" "map fst spp = map fst init"
    by blast
  then show ?thesis using ip cv(1) gs(1) hd ki
    by (simp add: scoring_stage_def init_def)
qed

lemma length_player_recommendations:
  "length (player_recommendations frames t_rel cfg pid sm) = length frames"
  by (simp add: player_recommendations_def)

lemma nth_player_recommendations:
  "i < length frames \<Longrightarrow>
     player_recommendations frames t_rel cfg pid sm ! i =
       make_recommendation pid i (t_rel ! i) (frames ! i) cfg (get_default sm i [])"
  by (simp add: player_recommendations_def)

lemma map_of_map_key:
  "map_of (map (\<lambda>k. (k, f k)) ks) k = (if k \<in> set ks then Some (f k) else None)"
  by (induction ks) auto

lemma make_recommendation_ids:
  "r_player_id (make_recommendation pid i t fr cfg ranked) = pid \<and>
   r_frame_idx (make_recommendation pid i t fr cfg ranked) = i"
  by (cases ranked) (simp_all add: make_recommendation_def Let_def)

lemma map_fst_map_key: "map fst (map (\<lambda>k. (k, f k)) ks) = ks"
  by (induction ks) auto

lemma run_baseline_policy_ok:
  assumes "scoring_stage frames ptch pt pr cfg = Some (Inr (t_rel, spp))"
  shows "\<exists>out. run_baseline_policy frames ptch pt pr cfg = Some (Inr out) \<and>
           map fst out = map fst (players (hd frames)) \<and>
           (\<forall>pid\<in>set (map fst (players (hd frames))).
              map_of out pid = Some (player_recommendations frames t_rel cfg pid
                                       (smoothed_for spp cfg pid)))"
proof -
  define ks where "ks = map fst (players (hd frames))"
  define f where "f = (\<lambda>pid. player_recommendations frames t_rel cfg pid (smoothed_for spp cfg pid))"
  have "run_baseline_policy frames ptch pt pr cfg = Some (Inr (map (\<lambda>pid. (pid, f pid)) ks))"
    unfolding run_baseline_policy_def ks_def f_def using assms by simp
  moreover have "map fst (map (\<lambda>pid. (pid, f pid)) ks) = ks" by (rule map_fst_map_key)
  moreover have "\<forall>pid\<in>set ks. map_of (map (\<lambda>pid. (pid, f pid)) ks) pid = Some (f pid)"
    by (simp only: map_of_map_key) simp
  ultimately show ?thesis unfolding ks_def f_def by blast
qed

lemma space_loop_y_Some_D:
  assumes "space_loop_y g ptch pid pt cfg p y1 x y best = Some r"
  shows "\<not> (round64 (y + space_grid_dy cfg) = Fin y \<and> pitch_length ptch \<noteq> 0 \<and>
            y \<le> y1 + 1 / 10 ^ 6)"
proof -
  define Q where "Q = (\<lambda>(g :: frame_graph) (ptch :: pitch) (pid :: string)
      (pt :: (string, string) dict) (cfg :: algo_config) (p :: vec2) (y1 :: real) (x :: real)
      (y :: real) (best :: vec2 option \<times> pyfloat)
      (r :: error + (vec2 option \<times> pyfloat)).
      \<not> (round64 (y + space_grid_dy cfg) = Fin y \<and> pitch_length ptch \<noteq> 0 \<and>
         y \<le> y1 + 1 / 10 ^ 6))"
  have step: "Q g ptch pid pt cfg p y1 x y best r"
    if ih: "\<And>g ptch pid pt cfg p y1 x y best r.
              f g ptch pid pt cfg p y1 x y best = Some r \<Longrightarrow> Q g ptch pid pt cfg p y1 x y best r"
      and body: "(if y \<le> y1 + 1 / 10 ^ 6
         then case space_point g ptch pid pt cfg p x y best of
                Inl e \<Rightarrow> Some (Inl e)
              | Inr best' \<Rightarrow>
                  (case round64 (y + space_grid_dy cfg) of
                     Fin y' \<Rightarrow> f g ptch pid pt cfg p y1 x y' best'
                   | NInf \<Rightarrow> (if pitch_length ptch = 0 then Some (Inl ZeroDivisionError)
                               else None)
                   | _ \<Rightarrow> Some (Inr best'))
         else Some (Inr best)) = Some r"
    for f and g :: frame_graph and ptch :: pitch and pid :: string
      and pt :: "(string, string) dict" and cfg :: algo_config and p :: vec2
      and y1 x y :: real and best :: "vec2 option \<times> pyfloat"
      and r :: "error + (vec2 option \<times> pyfloat)"
    unfolding Q_def
  proof
    assume a: "round64 (y + space_grid_dy cfg) = Fin y \<and> pitch_length ptch \<noteq> 0 \<and>
               y \<le> y1 + 1 / 10 ^ 6"
    then obtain b where b: "space_point g ptch pid pt cfg p x y best = Inr b"
      using space_point_ok by blast
    with a body have "f g ptch pid pt cfg p y1 x y b = Some r" by simp
    from ih [OF this] a show False by (simp add: Q_def)
  qed
  note rule = space_loop_y.raw_induct
      [where P = Q and xa = "(((((((((g, ptch), pid), pt), cfg), p), y1), x), y), best)" and ya = r,
        unfolded prod.case]
  have "Q g ptch pid pt cfg p y1 x y best r"
  proof (rule rule)
    show "space_loop_y g ptch pid pt cfg p y1 x y best = Some r" by (rule assms)
  next
    fix f g ptch pid pt cfg p y1 x y best r
    assume "\<And>g ptch pid pt cfg p y1 x y best r.
              f g ptch pid pt cfg p y1 x y best = Some r \<Longrightarrow> Q g ptch pid pt cfg p y1 x y best r"
      and "(if y \<le> y1 + 1 / 10 ^ 6
         then case space_point g ptch pid pt cfg p x y best of
                Inl e \<Rightarrow> Some (Inl e)
              | Inr best' \<Rightarrow>
                  (case round64 (y + space_grid_dy cfg) of
                     Fin y' \<Rightarrow> f g ptch pid pt cfg p y1 x y' best'
                   | NInf \<Rightarrow> (if pitch_length ptch = 0 then Some (Inl ZeroDivisionError)
                               else None)
                   | _ \<Rightarrow> Some (Inr best'))
         else Some (Inr best)) = Some r"
    then show "Q g ptch pid pt cfg p y1 x y best r" by (rule step)
  qed
  then show ?thesis by (simp add: Q_def)
qed

lemma space_loop_y_diverges:
  assumes "round64 (y + space_grid_dy cfg) = Fin y" "pitch_length ptch \<noteq> 0"
    and "y \<le> y1 + 1 / 10 ^ 6"
  shows "space_loop_y g ptch pid pt cfg p y1 x y best = None"
proof (cases "space_loop_y g ptch pid pt cfg p y1 x y best")
  case None
  then show ?thesis .
next
  case (Some r)
  from space_loop_y_Some_D [OF this] assms show ?thesis by simp
qed

lemma space_loop_x_diverges:
  assumes "round64 (y0 + space_grid_dy cfg) = Fin y0" "pitch_length ptch \<noteq> 0"
    and "y0 \<le> y1 + 1 / 10 ^ 6" and "x \<le> x1 + 1 / 10 ^ 6"
  shows "space_loop_x g ptch pid pt cfg p x1 y0 y1 x best = None"
  using assms(4) by (subst space_loop_x.simps) (simp add: space_loop_y_diverges [OF assms(1,2,3)])

lemma recommend_ok:
  assumes "canonicalize_frames raw = Inr (frames, P)" "distinct P"
    and "grid_ok cfg (meta_pitch m) frames"
  shows "\<exists>out t_rel spp.
           recommend_player_focus raw m cfg = Some (Inr out) \<and>
           scoring_stage frames (meta_pitch m) (fst (build_player_maps m P))
             (snd (build_player_maps m P)) cfg = Some (Inr (t_rel, spp)) \<and>
           length t_rel = length frames \<and> map fst spp = P \<and> map fst out = P \<and>
           (\<forall>pid\<in>set P. map_of out pid =
              Some (player_recommendations frames t_rel cfg pid (smoothed_for spp cfg pid)))"
proof -
  from canonicalize_canonical [OF assms(1,2)] have
    c: "canonical P 0 frames" "frames \<noteq> []" by blast+
  have hd: "map fst (players (hd frames)) = P" using c canonical_keys [OF c(1)] by simp
  from scoring_stage_ok [OF c assms(2,3)] obtain t_rel spp where
    st: "scoring_stage frames (meta_pitch m) (fst (build_player_maps m P))
           (snd (build_player_maps m P)) cfg = Some (Inr (t_rel, spp))"
    "length t_rel = length frames" "map fst spp = P" by blast
  from run_baseline_policy_ok [OF st(1)] obtain out where
    "run_baseline_policy frames (meta_pitch m) (fst (build_player_maps m P))
       (snd (build_player_maps m P)) cfg = Some (Inr out)"
    "map fst out = map fst (players (hd frames))"
    "\<forall>pid\<in>set (map fst (players (hd frames))).
              map_of out pid = Some (player_recommendations frames t_rel cfg pid
                                       (smoothed_for spp cfg pid))" by blast
  with st hd assms(1) show ?thesis
    by (simp add: recommend_player_focus_def Let_def)
qed

lemma run_baseline_policy_Inr_D:
  assumes "run_baseline_policy frames ptch pt pr cfg = Some (Inr out)"
  shows "\<exists>t_rel spp.
           scoring_stage frames ptch pt pr cfg = Some (Inr (t_rel, spp)) \<and>
           out = map (\<lambda>pid. (pid, player_recommendations frames t_rel cfg pid
                                     (smoothed_for spp cfg pid)))
                     (map fst (players (hd frames)))"
proof (cases "scoring_stage frames ptch pt pr cfg")
  case None
  with assms show ?thesis by (simp add: run_baseline_policy_def)
next
  case (Some r)
  show ?thesis
  proof (cases r)
    case (Inl e)
    with Some assms show ?thesis by (simp add: run_baseline_policy_def)
  next
    case (Inr ts)
    obtain t_rel spp where "ts = (t_rel, spp)" by (cases ts)
    with Some Inr assms show ?thesis by (simp add: run_baseline_policy_def)
  qed
qed

lemma recommend_Inr_D:
  assumes "recommend_player_focus raw m cfg = Some (Inr out)"
    and "canonicalize_frames raw = Inr (frames, P)"
  shows "\<exists>t_rel spp.
           scoring_stage frames (meta_pitch m) (fst (build_player_maps m P))
             (snd (build_player_maps m P)) cfg = Some (Inr (t_rel, spp)) \<and>
           out = map (\<lambda>pid. (pid, player_recommendations frames t_rel cfg pid
                                     (smoothed_for spp cfg pid)))
                     (map fst (players (hd frames)))"
proof -
  from assms have "run_baseline_policy frames (meta_pitch m) (fst (build_player_maps m P))
       (snd (build_player_maps m P)) cfg = Some (Inr out)"
    by (simp add: recommend_player_focus_def Let_def)
  from run_baseline_policy_Inr_D [OF this] show ?thesis .
qed

lemma shape_of_output:
  assumes "out = map (\<lambda>pid. (pid, player_recommendations frames t_rel cfg pid (sm pid))) P"
    and "pid \<in> set P"
  shows "map fst out = P \<and>
         (\<exists>recs. map_of out pid = Some recs \<and> length recs = length frames \<and>
                 (\<forall>i<length frames. r_frame_idx (recs ! i) = i \<and> r_player_id (recs ! i) = pid))"
proof -
  have "map_of out pid = Some (player_recommendations frames t_rel cfg pid (sm pid))"
    using assms by (simp only: map_of_map_key) simp
  moreover have "map fst out = P" unfolding assms(1) by (rule map_fst_map_key)
  ultimately show ?thesis
    by (simp add: length_player_recommendations nth_player_recommendations make_recommendation_ids)
qed

text \<open>
  Claim C1 (output shape), as amended. For every raw frame list that canonicalizes (with
  distinct frame-0 player ids, as in any dict) and every configuration: whenever the
  pipeline returns an output, its keys are exactly the frame-0 player ids, in order, and
  every player's list has one recommendation per frame, in frame order; and the pipeline
  does return an output whenever the open-space grid search is switched off, or the
  pitch length is not zero and both grid steps advance through the search window of
  every player in every frame (\<open>grid_ok\<close>: each step is at least the smallest positive
  binary64 number and every coordinate of the window has a magnitude of at most
  \<open>2^51\<close> times the step). For other configurations it need not return: see the
  counterexample below.
\<close>

theorem pipeline_output_shape:
  assumes "canonicalize_frames raw = Inr (frames, P)" and "distinct P"
  shows "(grid_ok cfg (meta_pitch m) frames \<longrightarrow>
            (\<exists>out. recommend_player_focus raw m cfg = Some (Inr out))) \<and>
         (\<forall>out. recommend_player_focus raw m cfg = Some (Inr out) \<longrightarrow>
            map fst out = map fst (player_pos (hd raw)) \<and>
            (\<forall>pid\<in>set (map fst (player_pos (hd raw))).
               \<exists>recs. map_of out pid = Some recs \<and> length recs = length raw \<and>
                      (\<forall>i<length raw. r_frame_idx (recs ! i) = i \<and> r_player_id (recs ! i) = pid)))"
proof (intro conjI impI allI)
  assume "grid_ok cfg (meta_pitch m) frames"
  from recommend_ok [OF assms this] show "\<exists>out. recommend_player_focus raw m cfg = Some (Inr out)"
    by blast
next
  fix out assume out: "recommend_player_focus raw m cfg = Some (Inr out)"
  from canonicalize_canonical [OF assms] have
    c: "canonical P 0 frames" "frames \<noteq> []" "length frames = length raw"
    "P = map fst (player_pos (hd raw))" by blast+
  have hd: "map fst (players (hd frames)) = P" using c(2) canonical_keys [OF c(1)] by simp
  from recommend_Inr_D [OF out assms(1)] hd obtain t_rel spp where
    o: "out = map (\<lambda>pid. (pid, player_recommendations frames t_rel cfg pid
                                     (smoothed_for spp cfg pid))) P" by auto
  show "map fst out = map fst (player_pos (hd raw))"
    unfolding o c(4) [symmetric] by (rule map_fst_map_key)
  show "\<forall>pid\<in>set (map fst (player_pos (hd raw))).
               \<exists>recs. map_of out pid = Some recs \<and> length recs = length raw \<and>
                      (\<forall>i<length raw. r_frame_idx (recs ! i) = i \<and> r_player_id (recs ! i) = pid)"
  proof
    fix pid assume "pid \<in> set (map fst (player_pos (hd raw)))"
    then have "pid \<in> set P" using c(4) by simp
    from shape_of_output [OF o this] c(3) show
      "\<exists>recs. map_of out pid = Some recs \<and> length recs = length raw \<and>
                      (\<forall>i<length raw. r_frame_idx (recs ! i) = i \<and> r_player_id (recs ! i) = pid)"
      by simp
  qed
qed

lemma stored_update:
  assumes "stored Q spp" "map_of spp pid = Some d" "Q scored"
  shows "stored Q (AList.update pid (AList.update k scored d) spp)"
proof -
  have din: "(pid, d) \<in> set spp" using assms(2) by (rule map_of_SomeD)
  with assms(1) have dd: "distinct (map fst d)" "\<forall>ke\<in>set d. Q (snd ke)"
    by (auto simp: stored_def)
  have 1: "distinct (map fst (AList.update k scored d))" using dd(1) by (rule distinct_update)
  have 2: "\<forall>ke\<in>set (AList.update k scored d). Q (snd ke)"
    using set_update_subset [of k scored d] dd(2) assms(3) by auto
  show ?thesis
    unfolding stored_def
  proof
    fix pd assume "pd \<in> set (AList.update pid (AList.update k scored d) spp)"
    with set_update_subset [of pid "AList.update k scored d" spp]
    have "pd = (pid, AList.update k scored d) \<or> pd \<in> set spp" by auto
    with 1 2 assms(1) show "distinct (map fst (snd pd)) \<and> (\<forall>ke\<in>set (snd pd). Q (snd ke))"
      by (auto simp: stored_def)
  qed
qed

lemma score_players_stored:
  assumes step: "\<And>pid cands scored.
      generate_candidates_for_player g ptch pid pt cfg sm = Some (Inr cands) \<Longrightarrow>
      score_candidates g pid cands sm cfg (role_of pr pid) = Inr scored \<Longrightarrow> Q scored"
  shows "score_players g sm pids ptch pt pr cfg spp = Some (Inr spp') \<Longrightarrow> stored Q spp \<Longrightarrow>
           stored Q spp'"
proof (induction pids arbitrary: spp)
  case Nil
  then show ?case by simp
next
  case (Cons pid pids)
  from Cons.prems(1) obtain cands where
    c: "generate_candidates_for_player g ptch pid pt cfg sm = Some (Inr cands)"
    by (auto simp: Let_def split: option.splits sum.splits)
  from Cons.prems(1) c obtain scored where
    sc: "score_candidates g pid cands sm cfg (role_of pr pid) = Inr scored"
    by (auto simp: Let_def split: sum.splits)
  from Cons.prems(1) c sc obtain d where d: "lookup spp pid = Inr d"
    by (auto simp: Let_def split: sum.splits)
  then have md: "map_of spp pid = Some d" by (auto simp: lookup_def split: option.splits)
  from Cons.prems(1) c sc d have rec: "score_players g sm pids ptch pt pr cfg
      (AList.update pid (AList.update (g_frame_idx g) scored d) spp) = Some (Inr spp')"
    by (simp add: Let_def)
  from Cons.IH [OF rec stored_update [OF Cons.prems(2) md step [OF c sc]]] show ?case .
qed

lemma score_graphs_stored:
  assumes step: "\<And>g sm pid cands scored.
      generate_candidates_for_player g ptch pid pt cfg sm = Some (Inr cands) \<Longrightarrow>
      score_candidates g pid cands sm cfg (role_of pr pid) = Inr scored \<Longrightarrow> Q scored"
  shows "score_graphs gs pids ptch pt pr cfg spp = Some (Inr spp') \<Longrightarrow> stored Q spp \<Longrightarrow>
           stored Q spp'"
proof (induction gs arbitrary: spp)
  case Nil
  then show ?case by simp
next
  case (Cons g gs)
  from Cons.prems(1) obtain sm where sm: "summarize_pressure_support g cfg = Inr sm"
    by (auto split: sum.splits)
  from Cons.prems(1) sm obtain spp1 where
    s1: "score_players g sm pids ptch pt pr cfg spp = Some (Inr spp1)"
    by (auto split: option.splits sum.splits)
  from Cons.prems(1) sm s1 have rec: "score_graphs gs pids ptch pt pr cfg spp1 = Some (Inr spp')"
    by simp
  have "stored Q spp1"
    by (rule score_players_stored [OF step s1 Cons.prems(2)])
  from Cons.IH [OF rec this] show ?case .
qed

lemma scoring_stage_stored:
  assumes step: "\<And>g sm pid cands scored.
      generate_candidates_for_player g ptch pid pt cfg sm = Some (Inr cands) \<Longrightarrow>
      score_candidates g pid cands sm cfg (role_of pr pid) = Inr scored \<Longrightarrow> Q scored"
    and "scoring_stage frames ptch pt pr cfg = Some (Inr (t_rel, spp))"
  shows "stored Q spp"
proof -
  define ks where "ks = map fst (players (hd frames))"
  define init :: "(string, (nat, scored_event list) dict) dict"
    where "init = map (\<lambda>pid. (pid, [])) ks"
  have i: "stored Q init" by (auto simp: stored_def init_def)
  from assms(2) obtain gs where "score_graphs gs ks ptch pt pr cfg init = Some (Inr spp)"
    unfolding scoring_stage_def Let_def ks_def init_def
    by (auto split: sum.splits option.splits prod.splits)
  from score_graphs_stored [OF step this i] show ?thesis .
qed

lemma clamp_score_clamped:
  assumes "clamp_scores cfg" "score_min cfg \<le> score_max cfg"
  shows "clamped cfg (clamp_score cfg s)"
  using assms by (cases s) (auto simp: clamp_score_def clamped_def pymin_def pymax_def)

lemma score_loop_scores:
  "score_loop g pid p cs sm cfg role acc = Inr scored \<Longrightarrow>
     \<forall>e\<in>set scored. e \<in> set acc \<or> (\<exists>s. score e = clamp_score cfg s)"
proof (induction cs arbitrary: acc)
  case Nil
  then show ?case by simp
next
  case (Cons c cs)
  from Cons.prems obtain s rs where
    rec: "score_loop g pid p cs sm cfg role
            (acc @ [\<lparr>name = c_name c, score = clamp_score cfg s, focus = c_focus c,
                     reasons = rs, meta = c_meta c\<rparr>]) = Inr scored"
    by (auto split: sum.splits)
  let ?new = "\<lparr>name = c_name c, score = clamp_score cfg s, focus = c_focus c,
                     reasons = rs, meta = c_meta c\<rparr>"
  have new: "\<exists>s'. score ?new = clamp_score cfg s'" by auto
  show ?case
  proof
    fix e assume "e \<in> set scored"
    with Cons.IH [OF rec] have "e \<in> set (acc @ [?new]) \<or> (\<exists>s. score e = clamp_score cfg s)"
      by blast
    then show "e \<in> set acc \<or> (\<exists>s. score e = clamp_score cfg s)"
      using new by auto
  qed
qed

lemma score_candidates_clamped:
  assumes "score_candidates g pid cs sm cfg role = Inr scored"
    and "clamp_scores cfg" "score_min cfg \<le> score_max cfg"
  shows "\<forall>e\<in>set scored. clamped cfg (score e)"
proof (cases "map_of (nodes g) pid")
  case None
  with assms(1) show ?thesis by (simp add: score_candidates_def)
next
  case (Some nd)
  with assms(1) obtain sc where
    sc: "score_loop g pid (n_pos nd) cs sm cfg role [] = Inr sc" "scored = sort_desc sc"
    by (auto simp: score_candidates_def split: sum.splits)
  from score_loop_scores [OF sc(1)] clamp_score_clamped [OF assms(2,3)]
  have "\<forall>e\<in>set sc. clamped cfg (score e)" by force
  then show ?thesis by (simp add: sc(2) set_sort_desc)
qed

lemma ranked_cases:
  assumes "distinct (map fst d)"
  shows "get_default (apply_temporal_smoothing d cfg) i [] = [] \<or>
         (\<exists>evs prev. map_of d i = Some evs \<and>
            get_default (apply_temporal_smoothing d cfg) i [] = smooth_frame cfg prev evs)"
proof (cases "map_of d i")
  case None
  then have "i \<notin> set (map fst d)" by (simp add: map_of_eq_None_iff)
  then have "i \<notin> set (map fst (apply_temporal_smoothing d cfg))"
    by (simp add: smoothing_keys [OF assms])
  then have "map_of (apply_temporal_smoothing d cfg) i = None"
    by (simp add: map_of_eq_None_iff)
  then show ?thesis by (simp add: get_default_def)
next
  case (Some evs)
  from smoothing_frame_shape [OF assms Some, of cfg] Some show ?thesis
    by (auto simp: get_default_def)
qed

lemma smooth_frame_scores:
  assumes "\<forall>e\<in>set evs. clamped cfg (score e)" "e \<in> set (smooth_frame cfg prev evs)"
  shows "smoothed_clamped cfg (score e)"
proof (cases "evs = [] \<or> prev = None")
  case True
  with assms have "clamped cfg (score e)"
    by (auto simp: smooth_frame_def split: if_splits option.splits)
  then obtain r where "score e = Fin r" "score_min cfg \<le> r" "r \<le> score_max cfg"
    by (auto simp: clamped_def)
  then show ?thesis unfolding smoothed_clamped_def by (intro exI [of _ r]) simp
next
  case False
  then obtain p where p: "prev = Some p" "evs \<noteq> []" by auto
  with assms(2) have "e \<in> set (map (adjust cfg p) evs)"
    by (simp add: smooth_frame_def set_sort_desc)
  then obtain e0 where e0: "e0 \<in> set evs" "e = adjust cfg p e0" by auto
  with assms(1) obtain r where r: "score e0 = Fin r" "score_min cfg \<le> r" "r \<le> score_max cfg"
    by (auto simp: clamped_def)
  show ?thesis
    unfolding smoothed_clamped_def
    by (rule exI [of _ r]) (use e0 r in \<open>simp add: score_adjust\<close>)
qed

lemma stored_lookup:
  assumes "stored Q spp"
  shows "distinct (map fst (get_default spp pid [])) \<and>
         (\<forall>evs. map_of (get_default spp pid []) i = Some evs \<longrightarrow> Q evs)"
proof (cases "map_of spp pid")
  case None
  then show ?thesis by (simp add: get_default_def)
next
  case (Some d)
  then have "(pid, d) \<in> set spp" by (rule map_of_SomeD)
  with assms have "distinct (map fst d)" "\<forall>ke\<in>set d. Q (snd ke)" by (auto simp: stored_def)
  moreover have "(i, evs) \<in> set d" if "map_of d i = Some evs" for evs
    using that by (rule map_of_SomeD)
  ultimately show ?thesis using Some by (force simp: get_default_def)
qed

lemma ranked_events_scores:
  assumes "stored (\<lambda>evs. \<forall>e\<in>set evs. clamped cfg (score e)) spp"
    and "e \<in> set (ranked_events spp cfg pid i)"
  shows "smoothed_clamped cfg (score e)"
proof -
  let ?d = "get_default spp pid []"
  from stored_lookup [OF assms(1), of pid i] have
    d: "distinct (map fst ?d)"
    "\<forall>evs. map_of ?d i = Some evs \<longrightarrow> (\<forall>e\<in>set evs. clamped cfg (score e))" by simp_all
  from ranked_cases [OF d(1), of cfg i] assms(2) obtain evs prev where
    "map_of ?d i = Some evs" "ranked_events spp cfg pid i = smooth_frame cfg prev evs"
    by (auto simp: ranked_events_def smoothed_for_def)
  with d(2) assms(2) smooth_frame_scores [of evs cfg e prev] show ?thesis by simp
qed

lemma make_recommendation_scores:
  assumes "\<forall>e\<in>set ranked. Q (score e)"
  shows "(\<forall>e\<in>set (r_top_k (make_recommendation pid i t fr cfg ranked)). Q (score e)) \<and>
         (r_top_k (make_recommendation pid i t fr cfg ranked) \<noteq> [] \<longrightarrow>
            Q (primary_score (make_recommendation pid i t fr cfg ranked))) \<and>
         (r_top_k (make_recommendation pid i t fr cfg ranked) = [] \<longrightarrow>
            primary_score (make_recommendation pid i t fr cfg ranked) = Fin 0)"
proof (cases ranked)
  case Nil
  then show ?thesis by (simp add: make_recommendation_def)
next
  case (Cons prim rest)
  have "set (take (nat (max 1 (top_k cfg))) ranked) \<subseteq> set ranked" by (rule set_take_subset)
  moreover have "take (nat (max 1 (top_k cfg))) ranked \<noteq> []" using Cons by simp
  ultimately show ?thesis using assms Cons
    by (auto simp: make_recommendation_def Let_def)
qed

lemma make_recommendation_fallback:
  "make_recommendation pid i t fr cfg [] =
     \<lparr>r_player_id = pid, r_frame_idx = i, r_t_rel = t,
      primary = \<lparr>target_type = BALL, anchor = ball_pos fr, target_player_id = None,
                 tag = Some ''ball''\<rparr>,
      primary_score = Fin 0, rationale = [''fallback_ball''], r_top_k = []\<rparr>"
  by (simp add: make_recommendation_def fallback_focus_def)

lemma no_generators_no_candidates:
  assumes "all_generators_disabled cfg"
    and "generate_candidates_for_player g ptch pid pt cfg sm = Some (Inr cands)"
  shows "cands = []"
  using assms
  by (auto simp: all_generators_disabled_def generate_candidates_for_player_def
      ball_candidate_def opp_candidate_def mate_candidate_def space_candidate_def
      goal_candidate_def split: option.splits)

lemma score_no_candidates:
  assumes "score_candidates g pid [] sm cfg role = Inr scored"
  shows "scored = []"
  using assms by (auto simp: score_candidates_def sort_desc_def split: option.splits)

lemma no_generators_ranked_empty:
  assumes "all_generators_disabled cfg"
    and "scoring_stage frames ptch pt pr cfg = Some (Inr (t_rel, spp))"
  shows "ranked_events spp cfg pid i = []"
proof -
  have sto: "stored (\<lambda>evs. evs = []) spp"
  proof (rule scoring_stage_stored [OF _ assms(2)])
    fix g sm p cands scored
    assume "generate_candidates_for_player g ptch p pt cfg sm = Some (Inr cands)"
      and sc: "score_candidates g p cands sm cfg (role_of pr p) = Inr scored"
    from no_generators_no_candidates [OF assms(1) this(1)] sc
    show "scored = []" using score_no_candidates by simp
  qed
  let ?d = "get_default spp pid []"
  from stored_lookup [OF sto, of pid i] have
    d: "distinct (map fst ?d)" "\<forall>evs. map_of ?d i = Some evs \<longrightarrow> evs = []" by simp_all
  from ranked_cases [OF d(1), of cfg i] d(2) show ?thesis
    by (auto simp: ranked_events_def smoothed_for_def smooth_frame_def)
qed

text \<open>
  Claim C8 (fallback). Whenever the scoring stage of \<open>run_baseline_policy\<close> succeeds and
  the smoothed, ranked list of player \<open>pid\<close> at frame \<open>i\<close> is empty, the policy returns
  an output in which the recommendation of \<open>pid\<close> at frame \<open>i\<close> has the primary
  \<open>FocusTarget(BALL, frame.ball_pos)\<close> (tag "ball"), primary score \<open>0.0\<close>, rationale
  \<open>["fallback_ball"]\<close> and an empty \<open>top_k\<close>. The list is empty for every player and
  frame when all five generators are disabled.
\<close>

theorem fallback_when_no_candidates:
  assumes "scoring_stage frames ptch pt pr cfg = Some (Inr (t_rel, spp))"
    and "pid \<in> set (map fst (players (hd frames)))" and "i < length frames"
  shows "(all_generators_disabled cfg \<longrightarrow> ranked_events spp cfg pid i = []) \<and>
         (ranked_events spp cfg pid i = [] \<longrightarrow>
            (\<exists>out recs. run_baseline_policy frames ptch pt pr cfg = Some (Inr out) \<and>
               map_of out pid = Some recs \<and> i < length recs \<and>
               primary (recs ! i) = \<lparr>target_type = BALL, anchor = ball_pos (frames ! i),
                                      target_player_id = None, tag = Some ''ball''\<rparr> \<and>
               primary_score (recs ! i) = Fin 0 \<and>
               rationale (recs ! i) = [''fallback_ball''] \<and>
               r_top_k (recs ! i) = []))"
proof (intro conjI impI)
  assume "all_generators_disabled cfg"
  then show "ranked_events spp cfg pid i = []"
    using assms(1) by (rule no_generators_ranked_empty)
next
  assume empty: "ranked_events spp cfg pid i = []"
  from run_baseline_policy_ok [OF assms(1)] assms(2) obtain out where
    out: "run_baseline_policy frames ptch pt pr cfg = Some (Inr out)"
    "map_of out pid = Some (player_recommendations frames t_rel cfg pid (smoothed_for spp cfg pid))"
    by blast
  let ?recs = "player_recommendations frames t_rel cfg pid (smoothed_for spp cfg pid)"
  have "?recs ! i = make_recommendation pid i (t_rel ! i) (frames ! i) cfg []"
    using assms(3) empty by (simp add: nth_player_recommendations ranked_events_def)
  then have "primary (?recs ! i) = \<lparr>target_type = BALL, anchor = ball_pos (frames ! i),
                                  target_player_id = None, tag = Some ''ball''\<rparr> \<and>
           primary_score (?recs ! i) = Fin 0 \<and>
           rationale (?recs ! i) = [''fallback_ball''] \<and>
           r_top_k (?recs ! i) = []"
    by (simp add: make_recommendation_fallback)
  moreover have "i < length ?recs" using assms(3) by (simp add: length_player_recommendations)
  ultimately show "\<exists>out recs. run_baseline_policy frames ptch pt pr cfg = Some (Inr out) \<and>
               map_of out pid = Some recs \<and> i < length recs \<and>
               primary (recs ! i) = \<lparr>target_type = BALL, anchor = ball_pos (frames ! i),
                                      target_player_id = None, tag = Some ''ball''\<rparr> \<and>
               primary_score (recs ! i) = Fin 0 \<and>
               rationale (recs ! i) = [''fallback_ball''] \<and>
               r_top_k (recs ! i) = []"
    using out by blast
qed

text \<open>
  Claim C2 (clamping), as amended. With clamping enabled and \<open>score_min \<le> score_max\<close>,
  every score the Scorer produces lies in \<open>[score_min, score_max]\<close>; the temporal
  smoother then adds \<open>persistence_bonus\<close> or subtracts \<open>switch_penalty\<close> without
  clamping again. So every score of a \<open>top_k\<close> list, and the \<open>primary_score\<close> of every
  recommendation that is not the fallback, is a clamped score, either unchanged or with
  \<open>persistence_bonus\<close> added or \<open>switch_penalty\<close> subtracted in one float addition; the
  fallback's \<open>primary_score\<close> is \<open>0.0\<close>.
\<close>

theorem output_scores_follow_clamp:
  assumes "recommend_player_focus raw m cfg = Some (Inr out)"
    and "clamp_scores cfg" and "score_min cfg \<le> score_max cfg"
    and "(pid, recs) \<in> set out" and "r \<in> set recs"
  shows "(\<forall>e\<in>set (r_top_k r). smoothed_clamped cfg (score e)) \<and>
         (r_top_k r \<noteq> [] \<longrightarrow> smoothed_clamped cfg (primary_score r)) \<and>
         (r_top_k r = [] \<longrightarrow> primary_score r = Fin 0) \<and>
         (\<forall>g p cs sm role scored. score_candidates g p cs sm cfg role = Inr scored \<longrightarrow>
            (\<forall>e\<in>set scored. clamped cfg (score e)))"
proof -
  from assms(1) obtain frames P where can: "canonicalize_frames raw = Inr (frames, P)"
    by (auto simp: recommend_player_focus_def split: sum.splits)
  from recommend_Inr_D [OF assms(1) can] obtain t_rel spp where
    st: "scoring_stage frames (meta_pitch m) (fst (build_player_maps m P))
             (snd (build_player_maps m P)) cfg = Some (Inr (t_rel, spp))"
    and o: "out = map (\<lambda>pid. (pid, player_recommendations frames t_rel cfg pid
                                     (smoothed_for spp cfg pid)))
                     (map fst (players (hd frames)))" by blast
  have sto: "stored (\<lambda>evs. \<forall>e\<in>set evs. clamped cfg (score e)) spp"
    by (rule scoring_stage_stored [OF _ st]) (rule score_candidates_clamped [OF _ assms(2,3)])
  from assms(4) o have recs: "recs = player_recommendations frames t_rel cfg pid
                                       (smoothed_for spp cfg pid)" by auto
  with assms(5) obtain i where i: "i < length frames"
    "r = make_recommendation pid i (t_rel ! i) (frames ! i) cfg (ranked_events spp cfg pid i)"
    by (auto simp: player_recommendations_def ranked_events_def)
  have "\<forall>e\<in>set (ranked_events spp cfg pid i). smoothed_clamped cfg (score e)"
    using ranked_events_scores [OF sto] by blast
  from make_recommendation_scores
      [OF this, where pid = pid and i = i and t = "t_rel ! i" and fr = "frames ! i" and cfg = cfg]
    score_candidates_clamped [OF _ assms(2,3)] i(2)
  show ?thesis by blast
qed

section \<open>The pipeline on Scenario A\<close>

lemma sqrt_squares:
  "sqrt 100 = 10" "sqrt 400 = 20" "sqrt 1600 = 40" "sqrt 2500 = 50" "sqrt 3600 = 60"
  by (simp_all add: real_sqrt_unique)

lemma round64_minus: "round64 (- x) = fneg (round64 x)"
proof -
  have "\<bar>rnd (- x)\<bar> = \<bar>rnd x\<bar>"
    by (simp add: rnd_minus)
  moreover have "rnd x = 0" if "x = 0"
    using that by simp
  ultimately show ?thesis
    by (cases "x = 0") (auto simp: round64_def rnd_minus)
qed

lemma scenario_roundings:
  "round64 (54 / 5) = Fin (3039929748475085 / 281474976710656)"
  "round64 (1 / 6) = Fin (6004799503160661 / 36028797018963968)"
  "round64 (11 / 24) = Fin (8256599316845909 / 18014398509481984)"
  "round64 (53 / 5) = Fin (5967269506265907 / 562949953421312)"
  "round64 (7 / 16) = Fin (7 / 16)"
  "round64 (77 / 30) = Fin (5779619521792137 / 2251799813685248)"
  "round64 (23 / 2) = Fin (23 / 2)"
proof -
  show "round64 (54 / 5) = Fin (3039929748475085 / 281474976710656)"
    by (rule r_54_5)
  show "round64 (1 / 6) = Fin (6004799503160661 / 36028797018963968)"
    by (subst round64_eq [where e = "- 3"]) (simp_all add: round_half_even_def powr_minus_divide)
  show "round64 (11 / 24) = Fin (8256599316845909 / 18014398509481984)"
    by (subst round64_eq [where e = "- 2"]) (simp_all add: round_half_even_def powr_minus_divide)
  show "round64 (53 / 5) = Fin (5967269506265907 / 562949953421312)"
    by (subst round64_eq [where e = 3]) (simp_all add: round_half_even_def powr_minus_divide)
  show "round64 (7 / 16) = Fin (7 / 16)"
    by (subst round64_eq [where e = "- 2"]) (simp_all add: round_half_even_def powr_minus_divide)
  show "round64 (77 / 30) = Fin (5779619521792137 / 2251799813685248)"
    by (subst round64_eq [where e = 1]) (simp_all add: round_half_even_def powr_minus_divide)
  show "round64 (23 / 2) = Fin (23 / 2)"
    by (subst round64_eq [where e = 3]) (simp_all add: round_half_even_def powr_minus_divide)
qed

lemmas model_defs =
  recommend_player_focus_def canonicalize_frames_def build_player_maps_def run_baseline_policy_def
  scoring_stage_def smoothed_for_def
  infer_pseudotime_def compute_velocities_def build_graph_def lookup_def get_default_def
  proximity_edges_def pair_edges_def ball_link_edges_def team_of_def role_of_def
  summarize_pressure_support_def summary_init_def summary_step_def
  generate_candidates_for_player_def ball_candidate_def opp_candidate_def mate_candidate_def
  space_candidate_def goal_candidate_def best_open_space_anchor_def space_point_def
  nearest_opponent_def best_support_teammate_def
  score_candidates_def score_one_def score_specific_def clamp_score_def pymin_def pymax_def
  sort_desc_def apply_temporal_smoothing_def adjust_def same_focus_def anchor_close_def
  round64_0 threshold_nonneg
  player_recommendations_def make_recommendation_def fallback_focus_def
  dist_vec_def norm_vec_def sub_vec_def dot_vec_def unit_vec_def attacking_goal_center_def
  is_ahead_def in_forward_cone_def role_prior_def py_upper_def py_strip_def upper_char_def
  is_space_char_def default_config_def Let_def upt_rec sqrt_squares
  round64_numeral round64_minus scenario_roundings

lemma scenario_a_canonical:
  "canonicalize_frames scenario_a_raw = Inr (scenario_a_frames, [''a'', ''b''])"
  by (simp add: canonicalize_frames_def scenario_a_raw_def scenario_a_frames_def
      scenario_ball_def)

lemma scenario_a_maps:
  "build_player_maps scenario_a_meta [''a'', ''b''] = (scenario_a_teams, scenario_a_roles)"
  by (simp add: build_player_maps_def scenario_a_meta_def scenario_a_teams_def
      scenario_a_roles_def)

lemma scenario_a_eval:
  "map (\<lambda>(pid, rs). (pid, map (\<lambda>r. (primary r, primary_score r, length (r_top_k r))) rs))
     (projr (the (run_baseline_policy scenario_a_frames \<lparr>pitch_length = 100, pitch_width = 68\<rparr>
        scenario_a_teams scenario_a_roles default_config))) =
   [(''a'', [(zone_target (40, 16), Fin 10, 1), (zone_target (40, 16), round64 (54 / 5), 1),
             (zone_target (40, 16), round64 (54 / 5), 1)]),
    (''b'', [(zone_target (60, 16), Fin 10, 1), (zone_target (60, 16), round64 (54 / 5), 1),
             (zone_target (60, 16), round64 (54 / 5), 1)])]"
  by (simp add: model_defs scenario_a_frames_def scenario_a_teams_def scenario_a_roles_def
      zone_target_def space_loop_x.simps space_loop_y.simps)

lemma scenario_a_stalled:
  "run_baseline_policy scenario_a_frames \<lparr>pitch_length = 100, pitch_width = 68\<rparr>
        scenario_a_teams scenario_a_roles stalled_config = None"
  by (simp add: model_defs scenario_a_frames_def scenario_a_teams_def scenario_a_roles_def
      stalled_config_def space_loop_x_diverges)

lemma tiny_step_absorbed: "round64 (16 + tiny_step) = Fin 16"
  by (subst round64_eq [where e = 4])
     (simp_all add: tiny_step_def round_half_even_def powr_minus_divide)

lemma scenario_a_absorbed:
  "run_baseline_policy scenario_a_frames \<lparr>pitch_length = 100, pitch_width = 68\<rparr>
        scenario_a_teams scenario_a_roles absorbed_config = None"
proof -
  have d: "space_loop_x g \<lparr>pitch_length = 100, pitch_width = 68\<rparr> pid pt absorbed_config p
             x1 16 52 x best = None" if "x \<le> x1 + 1 / 10 ^ 6" for g pid pt p x1 x best
    by (rule space_loop_x_diverges)
       (use that in \<open>simp_all add: absorbed_config_def tiny_step_absorbed\<close>)
  have c: "space_grid_dy absorbed_config = tiny_step" "space_grid_dx absorbed_config = 6"
    "enable_space_targets absorbed_config" "attack_direction absorbed_config = 1"
    by (simp_all add: absorbed_config_def default_config_def)
  show ?thesis
    by (simp add: model_defs scenario_a_frames_def scenario_a_teams_def scenario_a_roles_def
        absorbed_config_def d [unfolded absorbed_config_def default_config_def, simplified])
qed

lemma scenario_a_no_generators:
  "scoring_stage scenario_a_frames \<lparr>pitch_length = 100, pitch_width = 68\<rparr>
        scenario_a_teams scenario_a_roles no_generators_config =
     Some (Inr ([0, 1 / 5, 2 / 5],
                [(''a'', [(0, []), (1, []), (2, [])]), (''b'', [(0, []), (1, []), (2, [])])]))"
  by (simp add: model_defs scenario_a_frames_def scenario_a_teams_def scenario_a_roles_def
      no_generators_config_def)

lemma scenario_a_recommend:
  "recommend_player_focus scenario_a_raw scenario_a_meta cfg =
     run_baseline_policy scenario_a_frames \<lparr>pitch_length = 100, pitch_width = 68\<rparr>
       scenario_a_teams scenario_a_roles cfg"
  by (simp add: recommend_player_focus_def scenario_a_canonical scenario_a_maps Let_def)
     (simp add: scenario_a_meta_def)

lemma scenario_a_grid_ok:
  "grid_ok default_config (meta_pitch scenario_a_meta) scenario_a_frames"
  by (simp add: grid_ok_def window_ok_def coord_ok_def default_config_def scenario_a_meta_def
      scenario_a_frames_def Let_def)

lemma scenario_a_output:
  "\<exists>ra rb. recommend_player_focus scenario_a_raw scenario_a_meta default_config
             = Some (Inr [(''a'', ra), (''b'', rb)]) \<and>
     map (\<lambda>r. (primary r, primary_score r, length (r_top_k r))) ra =
       [(zone_target (40, 16), Fin 10, 1), (zone_target (40, 16), round64 (54 / 5), 1),
        (zone_target (40, 16), round64 (54 / 5), 1)] \<and>
     map (\<lambda>r. (primary r, primary_score r, length (r_top_k r))) rb =
       [(zone_target (60, 16), Fin 10, 1), (zone_target (60, 16), round64 (54 / 5), 1),
        (zone_target (60, 16), round64 (54 / 5), 1)]"
proof -
  have d: "distinct [''a'', ''b'']" by simp
  from recommend_ok [OF scenario_a_canonical d scenario_a_grid_ok] obtain out where
    out: "recommend_player_focus scenario_a_raw scenario_a_meta default_config = Some (Inr out)"
    by (elim conjE exE)
  then have "projr (the (run_baseline_policy scenario_a_frames
        \<lparr>pitch_length = 100, pitch_width = 68\<rparr> scenario_a_teams scenario_a_roles
        default_config)) = out"
    by (simp add: scenario_a_recommend)
  with scenario_a_eval have
    "map (\<lambda>(pid, rs). (pid, map (\<lambda>r. (primary r, primary_score r, length (r_top_k r))) rs)) out =
       [(''a'', [(zone_target (40, 16), Fin 10, 1), (zone_target (40, 16), round64 (54 / 5), 1),
                 (zone_target (40, 16), round64 (54 / 5), 1)]),
        (''b'', [(zone_target (60, 16), Fin 10, 1), (zone_target (60, 16), round64 (54 / 5), 1),
                 (zone_target (60, 16), round64 (54 / 5), 1)])]"
    by simp
  then obtain ra rb where "out = [(''a'', ra), (''b'', rb)]"
    "map (\<lambda>r. (primary r, primary_score r, length (r_top_k r))) ra =
       [(zone_target (40, 16), Fin 10, 1), (zone_target (40, 16), round64 (54 / 5), 1),
        (zone_target (40, 16), round64 (54 / 5), 1)]"
    "map (\<lambda>r. (primary r, primary_score r, length (r_top_k r))) rb =
       [(zone_target (60, 16), Fin 10, 1), (zone_target (60, 16), round64 (54 / 5), 1),
        (zone_target (60, 16), round64 (54 / 5), 1)]"
    by (auto simp: map_eq_Cons_conv)
  with out show ?thesis by auto
qed

theorem pipeline_output_shape_witness:
  "canonicalize_frames scenario_a_raw = Inr (scenario_a_frames, [''a'', ''b'']) \<and>
   distinct [''a'', ''b''] \<and>
   grid_ok default_config (meta_pitch scenario_a_meta) scenario_a_frames \<and>
   (\<exists>out recs. recommend_player_focus scenario_a_raw scenario_a_meta default_config
                 = Some (Inr out) \<and>
               map fst out = [''a'', ''b''] \<and> map_of out ''b'' = Some recs \<and>
               length recs = 3 \<and> r_frame_idx (recs ! 2) = 2 \<and> r_player_id (recs ! 2) = ''b'')"
proof -
  have d: "distinct [''a'', ''b'']" by simp
  have k: "map fst (player_pos (hd scenario_a_raw)) = [''a'', ''b'']"
    and l: "length scenario_a_raw = 3"
    by (simp_all add: scenario_a_raw_def)
  note t = pipeline_output_shape [OF scenario_a_canonical d, of default_config scenario_a_meta]
  from t scenario_a_grid_ok obtain out where
    out: "recommend_player_focus scenario_a_raw scenario_a_meta default_config = Some (Inr out)"
    by (elim conjE impE exE)
  with t k l have "map fst out = [''a'', ''b'']"
    and "\<exists>recs. map_of out ''b'' = Some recs \<and> length recs = 3 \<and>
                (\<forall>i<3. r_frame_idx (recs ! i) = i \<and> r_player_id (recs ! i) = ''b'')"
    by auto
  then obtain recs where "map fst out = [''a'', ''b'']" "map_of out ''b'' = Some recs"
    "length recs = 3" "r_frame_idx (recs ! 2) = 2" "r_player_id (recs ! 2) = ''b''"
    by auto
  with out have "\<exists>out recs. recommend_player_focus scenario_a_raw scenario_a_meta default_config
                 = Some (Inr out) \<and>
               map fst out = [''a'', ''b''] \<and> map_of out ''b'' = Some recs \<and>
               length recs = 3 \<and> r_frame_idx (recs ! 2) = 2 \<and> r_player_id (recs ! 2) = ''b''"
    by (intro exI [of _ out] exI [of _ recs]) simp
  then show ?thesis by (intro conjI scenario_a_canonical d scenario_a_grid_ok)
qed

theorem pipeline_no_output_counterexample:
  "canonicalize_frames scenario_a_raw = Inr (scenario_a_frames, [''a'', ''b'']) \<and>
   recommend_player_focus scenario_a_raw scenario_a_meta stalled_config = None \<and>
   \<not> (\<exists>out. recommend_player_focus scenario_a_raw scenario_a_meta stalled_config
               = Some (Inr out)) \<and>
   0 < space_grid_dx absorbed_config \<and> 0 < space_grid_dy absorbed_config \<and>
   recommend_player_focus scenario_a_raw scenario_a_meta absorbed_config = None"
  by (simp add: scenario_a_canonical scenario_a_recommend scenario_a_stalled scenario_a_absorbed)
     (simp add: absorbed_config_def default_config_def tiny_step_def)

theorem output_score_above_max_counterexample:
  "clamp_scores default_config \<and> score_max default_config = 10 \<and>
   (\<exists>out recs. recommend_player_focus scenario_a_raw scenario_a_meta default_config
                 = Some (Inr out) \<and>
               map_of out ''a'' = Some recs \<and> primary_score (recs ! 1) = round64 (54 / 5)) \<and>
   flt (Fin (score_max default_config)) (round64 (54 / 5))"
proof -
  from scenario_a_output obtain ra rb where
    o: "recommend_player_focus scenario_a_raw scenario_a_meta default_config
             = Some (Inr [(''a'', ra), (''b'', rb)])"
    and ra: "map (\<lambda>r. (primary r, primary_score r, length (r_top_k r))) ra =
       [(zone_target (40, 16), Fin 10, 1), (zone_target (40, 16), round64 (54 / 5), 1),
        (zone_target (40, 16), round64 (54 / 5), 1)]"
    by (elim exE conjE)
  from ra have "primary_score (ra ! 1) = round64 (54 / 5)" by (auto simp: map_eq_Cons_conv)
  with o have "\<exists>out recs. recommend_player_focus scenario_a_raw scenario_a_meta default_config
                 = Some (Inr out) \<and>
               map_of out ''a'' = Some recs \<and> primary_score (recs ! 1) = round64 (54 / 5)"
    by (intro exI [of _ "[(''a'', ra), (''b'', rb)]"] exI [of _ ra]) simp
  moreover have "flt (Fin (score_max default_config)) (round64 (54 / 5))"
    by (simp add: default_config_def scenario_roundings)
  ultimately show ?thesis by (simp add: default_config_def)
qed

theorem output_scores_follow_clamp_witness:
  "clamp_scores default_config \<and> score_min default_config \<le> score_max default_config \<and>
   (\<exists>out recs. recommend_player_focus scenario_a_raw scenario_a_meta default_config
                 = Some (Inr out) \<and>
               (''a'', recs) \<in> set out \<and> recs ! 1 \<in> set recs \<and> r_top_k (recs ! 1) \<noteq> [] \<and>
               smoothed_clamped default_config (primary_score (recs ! 1)))"
proof -
  have c: "clamp_scores default_config" "score_min default_config \<le> score_max default_config"
    by (simp_all add: default_config_def)
  from scenario_a_output obtain ra rb where
    o: "recommend_player_focus scenario_a_raw scenario_a_meta default_config
             = Some (Inr [(''a'', ra), (''b'', rb)])"
    and ra: "map (\<lambda>r. (primary r, primary_score r, length (r_top_k r))) ra =
       [(zone_target (40, 16), Fin 10, 1), (zone_target (40, 16), round64 (54 / 5), 1),
        (zone_target (40, 16), round64 (54 / 5), 1)]"
    by (elim exE conjE)
  from ra have "length (map (\<lambda>r. (primary r, primary_score r, length (r_top_k r))) ra) = 3"
    by simp
  then have len: "length ra = 3" by simp
  then have mem: "ra ! 1 \<in> set ra" by simp
  from ra have tk: "r_top_k (ra ! 1) \<noteq> []" by (auto simp: map_eq_Cons_conv)
  have ain: "(''a'', ra) \<in> set [(''a'', ra), (''b'', rb)]" by simp
  from output_scores_follow_clamp [OF o c ain mem] tk
  have "smoothed_clamped default_config (primary_score (ra ! 1))" by simp
  with o ain mem tk have "\<exists>out recs.
      recommend_player_focus scenario_a_raw scenario_a_meta default_config = Some (Inr out) \<and>
      (''a'', recs) \<in> set out \<and> recs ! 1 \<in> set recs \<and> r_top_k (recs ! 1) \<noteq> [] \<and>
      smoothed_clamped default_config (primary_score (recs ! 1))"
    by (intro exI [of _ "[(''a'', ra), (''b'', rb)]"] exI [of _ ra]) simp
  then show ?thesis by (intro conjI c)
qed

theorem scenario_a_primary_not_ball_counterexample:
  "\<exists>out recs. recommend_player_focus scenario_a_raw scenario_a_meta default_config
                 = Some (Inr out) \<and>
     map_of out ''a'' = Some recs \<and> primary (recs ! 0) = zone_target (40, 16) \<and>
     primary (recs ! 0) \<noteq> ball_target (50, 34)"
proof -
  from scenario_a_output obtain ra rb where
    o: "recommend_player_focus scenario_a_raw scenario_a_meta default_config
             = Some (Inr [(''a'', ra), (''b'', rb)])"
    and ra: "map (\<lambda>r. (primary r, primary_score r, length (r_top_k r))) ra =
       [(zone_target (40, 16), Fin 10, 1), (zone_target (40, 16), round64 (54 / 5), 1),
        (zone_target (40, 16), round64 (54 / 5), 1)]"
    by (elim exE conjE)
  from ra have p: "primary (ra ! 0) = zone_target (40, 16)" by (auto simp: map_eq_Cons_conv)
  then have "primary (ra ! 0) \<noteq> ball_target (50, 34)"
    by (simp add: zone_target_def ball_target_def)
  with o p show ?thesis
    by (intro exI [of _ "[(''a'', ra), (''b'', rb)]"] exI [of _ ra]) simp
qed

lemma scenario_a_scored_eval:
  "map (\<lambda>(pid, d). (pid, map (\<lambda>(i, evs). (i, map (\<lambda>e. (name e, score e)) evs)) d))
     (snd (projr (the (scoring_stage scenario_a_frames \<lparr>pitch_length = 100, pitch_width = 68\<rparr>
        scenario_a_teams scenario_a_roles default_config)))) =
   [(''a'', [(0, [(''OPEN_SPACE'', Fin 10), (''TEAM_SUPPORT'', Fin (4 / 3)),
                  (''GOAL'', Fin (25 / 24)), (''BALL_NEARBY'', Fin (- (91 / 10)))]),
             (1, [(''OPEN_SPACE'', Fin 10), (''TEAM_SUPPORT'', Fin (4 / 3)),
                  (''GOAL'', Fin (25 / 24)), (''BALL_NEARBY'', Fin (- (91 / 10)))]),
             (2, [(''OPEN_SPACE'', Fin 10), (''TEAM_SUPPORT'', Fin (4 / 3)),
                  (''GOAL'', Fin (25 / 24)), (''BALL_NEARBY'', Fin (- (91 / 10)))])]),
    (''b'', [(0, [(''OPEN_SPACE'', Fin 10), (''GOAL'', Fin (17 / 16)),
                  (''TEAM_SUPPORT'', Fin (- (16 / 15))), (''BALL_NEARBY'', Fin (- 10))]),
             (1, [(''OPEN_SPACE'', Fin 10), (''GOAL'', Fin (17 / 16)),
                  (''TEAM_SUPPORT'', Fin (- (16 / 15))), (''BALL_NEARBY'', Fin (- 10))]),
             (2, [(''OPEN_SPACE'', Fin 10), (''GOAL'', Fin (17 / 16)),
                  (''TEAM_SUPPORT'', Fin (- (16 / 15))), (''BALL_NEARBY'', Fin (- 10))])])]"
  by (simp add: model_defs scenario_a_frames_def scenario_a_teams_def scenario_a_roles_def
      zone_target_def space_loop_x.simps space_loop_y.simps)

lemma scenario_a_scored:
  "\<exists>t_rel spp. scoring_stage scenario_a_frames \<lparr>pitch_length = 100, pitch_width = 68\<rparr>
        scenario_a_teams scenario_a_roles default_config = Some (Inr (t_rel, spp)) \<and>
     map (\<lambda>(pid, d). (pid, map (\<lambda>(i, evs). (i, map (\<lambda>e. (name e, score e)) evs)) d)) spp =
   [(''a'', [(0, [(''OPEN_SPACE'', Fin 10), (''TEAM_SUPPORT'', Fin (4 / 3)),
                  (''GOAL'', Fin (25 / 24)), (''BALL_NEARBY'', Fin (- (91 / 10)))]),
             (1, [(''OPEN_SPACE'', Fin 10), (''TEAM_SUPPORT'', Fin (4 / 3)),
                  (''GOAL'', Fin (25 / 24)), (''BALL_NEARBY'', Fin (- (91 / 10)))]),
             (2, [(''OPEN_SPACE'', Fin 10), (''TEAM_SUPPORT'', Fin (4 / 3)),
                  (''GOAL'', Fin (25 / 24)), (''BALL_NEARBY'', Fin (- (91 / 10)))])]),
    (''b'', [(0, [(''OPEN_SPACE'', Fin 10), (''GOAL'', Fin (17 / 16)),
                  (''TEAM_SUPPORT'', Fin (- (16 / 15))), (''BALL_NEARBY'', Fin (- 10))]),
             (1, [(''OPEN_SPACE'', Fin 10), (''GOAL'', Fin (17 / 16)),
                  (''TEAM_SUPPORT'', Fin (- (16 / 15))), (''BALL_NEARBY'', Fin (- 10))]),
             (2, [(''OPEN_SPACE'', Fin 10), (''GOAL'', Fin (17 / 16)),
                  (''TEAM_SUPPORT'', Fin (- (16 / 15))), (''BALL_NEARBY'', Fin (- 10))])])]"
proof -
  have d: "distinct [''a'', ''b'']" by simp
  from canonicalize_canonical [OF scenario_a_canonical d] have
    c: "canonical [''a'', ''b''] 0 scenario_a_frames" and n: "scenario_a_frames \<noteq> []"
    by blast+
  have g: "grid_ok default_config \<lparr>pitch_length = 100, pitch_width = 68\<rparr> scenario_a_frames"
    using scenario_a_grid_ok by (simp add: scenario_a_meta_def)
  from scoring_stage_ok [OF c n d g, of scenario_a_teams scenario_a_roles] obtain t_rel spp where
    s: "scoring_stage scenario_a_frames \<lparr>pitch_length = 100, pitch_width = 68\<rparr>
        scenario_a_teams scenario_a_roles default_config = Some (Inr (t_rel, spp))"
    by (elim exE conjE)
  then have "snd (projr (the (scoring_stage scenario_a_frames
        \<lparr>pitch_length = 100, pitch_width = 68\<rparr> scenario_a_teams scenario_a_roles
        default_config))) = spp"
    by simp
  with scenario_a_scored_eval s show ?thesis
    by (intro exI [of _ t_rel] exI [of _ spp]) simp
qed

text \<open>
  Claim C3 (Scenario A), as amended. On the Scenario A input (players \<open>a\<close> at (40, 34)
  and \<open>b\<close> at (60, 34) of one team, ball at (50, 34) in all three frames, 100 x 68
  pitch, default configuration) four candidates compete for each player in every frame,
  and BALL_NEARBY is ranked last: its score is \<open>w_ball_distance * ball_d\<close> plus the
  forward-cone bonus, that is -9.1 for \<open>a\<close> and -10 for \<open>b\<close>, below GOAL and
  TEAM_SUPPORT. The primary of every frame is, for both players, the OPEN_SPACE-derived
  target of type ZONE anchored at the first grid point \<open>(px, py - 18)\<close>, with score 10
  at frame 0 and 10.8 afterwards; it is never the BALL target.
\<close>

theorem scenario_a_primary_is_open_space:
  "(\<exists>ra rb. recommend_player_focus scenario_a_raw scenario_a_meta default_config
             = Some (Inr [(''a'', ra), (''b'', rb)]) \<and>
     map primary ra = [zone_target (40, 16), zone_target (40, 16), zone_target (40, 16)] \<and>
     map primary rb = [zone_target (60, 16), zone_target (60, 16), zone_target (60, 16)] \<and>
     map primary_score ra = [Fin 10, round64 (54 / 5), round64 (54 / 5)] \<and>
     map primary_score rb = [Fin 10, round64 (54 / 5), round64 (54 / 5)]) \<and>
   (\<exists>t_rel spp. scoring_stage scenario_a_frames \<lparr>pitch_length = 100, pitch_width = 68\<rparr>
        scenario_a_teams scenario_a_roles default_config = Some (Inr (t_rel, spp)) \<and>
      map (\<lambda>(pid, d). (pid, map (\<lambda>(i, evs). (i, map (\<lambda>e. (name e, score e)) evs)) d)) spp =
       [(''a'', [(0, [(''OPEN_SPACE'', Fin 10), (''TEAM_SUPPORT'', Fin (4 / 3)),
                      (''GOAL'', Fin (25 / 24)), (''BALL_NEARBY'', Fin (- (91 / 10)))]),
                 (1, [(''OPEN_SPACE'', Fin 10), (''TEAM_SUPPORT'', Fin (4 / 3)),
                      (''GOAL'', Fin (25 / 24)), (''BALL_NEARBY'', Fin (- (91 / 10)))]),
                 (2, [(''OPEN_SPACE'', Fin 10), (''TEAM_SUPPORT'', Fin (4 / 3)),
                      (''GOAL'', Fin (25 / 24)), (''BALL_NEARBY'', Fin (- (91 / 10)))])]),
        (''b'', [(0, [(''OPEN_SPACE'', Fin 10), (''GOAL'', Fin (17 / 16)),
                      (''TEAM_SUPPORT'', Fin (- (16 / 15))), (''BALL_NEARBY'', Fin (- 10))]),
                 (1, [(''OPEN_SPACE'', Fin 10), (''GOAL'', Fin (17 / 16)),
                      (''TEAM_SUPPORT'', Fin (- (16 / 15))), (''BALL_NEARBY'', Fin (- 10))]),
                 (2, [(''OPEN_SPACE'', Fin 10), (''GOAL'', Fin (17 / 16)),
                      (''TEAM_SUPPORT'', Fin (- (16 / 15))), (''BALL_NEARBY'', Fin (- 10))])])])"
proof (rule conjI)
  from scenario_a_output obtain ra rb where
    o: "recommend_player_focus scenario_a_raw scenario_a_meta default_config
             = Some (Inr [(''a'', ra), (''b'', rb)])"
    and ra: "map (\<lambda>r. (primary r, primary_score r, length (r_top_k r))) ra =
       [(zone_target (40, 16), Fin 10, 1), (zone_target (40, 16), round64 (54 / 5), 1),
        (zone_target (40, 16), round64 (54 / 5), 1)]"
    and rb: "map (\<lambda>r. (primary r, primary_score r, length (r_top_k r))) rb =
       [(zone_target (60, 16), Fin 10, 1), (zone_target (60, 16), round64 (54 / 5), 1),
        (zone_target (60, 16), round64 (54 / 5), 1)]"
    by (elim exE conjE)
  from ra have "map primary ra = [zone_target (40, 16), zone_target (40, 16), zone_target (40, 16)]"
    "map primary_score ra = [Fin 10, round64 (54 / 5), round64 (54 / 5)]"
    by (auto simp: map_eq_Cons_conv)
  moreover from rb have
    "map primary rb = [zone_target (60, 16), zone_target (60, 16), zone_target (60, 16)]"
    "map primary_score rb = [Fin 10, round64 (54 / 5), round64 (54 / 5)]"
    by (auto simp: map_eq_Cons_conv)
  ultimately show "\<exists>ra rb. recommend_player_focus scenario_a_raw scenario_a_meta default_config
             = Some (Inr [(''a'', ra), (''b'', rb)]) \<and>
     map primary ra = [zone_target (40, 16), zone_target (40, 16), zone_target (40, 16)] \<and>
     map primary rb = [zone_target (60, 16), zone_target (60, 16), zone_target (60, 16)] \<and>
     map primary_score ra = [Fin 10, round64 (54 / 5), round64 (54 / 5)] \<and>
     map primary_score rb = [Fin 10, round64 (54 / 5), round64 (54 / 5)]"
    using o by (intro exI [of _ ra] exI [of _ rb]) simp
qed (rule scenario_a_scored)

theorem fallback_when_no_candidates_witness:
  "all_generators_disabled no_generators_config \<and>
   scoring_stage scenario_a_frames \<lparr>pitch_length = 100, pitch_width = 68\<rparr>
        scenario_a_teams scenario_a_roles no_generators_config =
     Some (Inr ([0, 1 / 5, 2 / 5],
                [(''a'', [(0, []), (1, []), (2, [])]), (''b'', [(0, []), (1, []), (2, [])])])) \<and>
   ''a'' \<in> set (map fst (players (hd scenario_a_frames))) \<and> 1 < length scenario_a_frames \<and>
   ranked_events [(''a'', [(0, []), (1, []), (2, [])]), (''b'', [(0, []), (1, []), (2, [])])]
     no_generators_config ''a'' 1 = [] \<and>
   (\<exists>out recs. run_baseline_policy scenario_a_frames \<lparr>pitch_length = 100, pitch_width = 68\<rparr>
                 scenario_a_teams scenario_a_roles no_generators_config = Some (Inr out) \<and>
               map_of out ''a'' = Some recs \<and>
               primary (recs ! 1) = ball_target (50, 34) \<and>
               primary_score (recs ! 1) = Fin 0 \<and>
               rationale (recs ! 1) = [''fallback_ball''] \<and>
               r_top_k (recs ! 1) = [])"
proof -
  have a: "''a'' \<in> set (map fst (players (hd scenario_a_frames)))"
    and l: "1 < length scenario_a_frames"
    and b: "ball_pos (scenario_a_frames ! 1) = (50, 34)"
    by (simp_all add: scenario_a_frames_def)
  have g: "all_generators_disabled no_generators_config"
    by (simp add: all_generators_disabled_def no_generators_config_def default_config_def)
  note fb = fallback_when_no_candidates [OF scenario_a_no_generators a l]
  from fb [THEN conjunct1, THEN mp, OF g] have
    r: "ranked_events [(''a'', [(0, []), (1, []), (2, [])]), (''b'', [(0, []), (1, []), (2, [])])]
     no_generators_config ''a'' 1 = []"
    .
  from fb [THEN conjunct2, THEN mp, OF r] obtain out recs where
    f: "run_baseline_policy scenario_a_frames \<lparr>pitch_length = 100, pitch_width = 68\<rparr>
                 scenario_a_teams scenario_a_roles no_generators_config = Some (Inr out)"
    "map_of out ''a'' = Some recs"
    "primary (recs ! 1) = \<lparr>target_type = BALL, anchor = ball_pos (scenario_a_frames ! 1),
                            target_player_id = None, tag = Some ''ball''\<rparr>"
    "primary_score (recs ! 1) = Fin 0"
    "rationale (recs ! 1) = [''fallback_ball'']"
    "r_top_k (recs ! 1) = []"
    by (elim exE conjE)
  have "\<exists>out recs. run_baseline_policy scenario_a_frames \<lparr>pitch_length = 100, pitch_width = 68\<rparr>
                 scenario_a_teams scenario_a_roles no_generators_config = Some (Inr out) \<and>
               map_of out ''a'' = Some recs \<and>
               primary (recs ! 1) = ball_target (50, 34) \<and>
               primary_score (recs ! 1) = Fin 0 \<and>
               rationale (recs ! 1) = [''fallback_ball''] \<and>
               r_top_k (recs ! 1) = []"
    using f b by (intro exI [of _ out] exI [of _ recs]) (simp add: ball_target_def)
  then show ?thesis by (intro conjI g scenario_a_no_generators a l r)
qed

section \<open>Number formatting on binary64 values\<close>

text \<open>
  \<open>f"{2.775:.2f}"\<close> is \<open>'2.77'\<close>: the binary64 number nearest to 2.775 lies below it.
\<close>

lemma round64_111_40: "round64 (111 / 40) = Fin (6248744482976563 / 2251799813685248)"
  by (subst round64_eq [where e = 1]) (simp_all add: round_half_even_def powr_minus_divide)

lemma fmt_fixed_example: "fmt_fixed 2 (111 / 40) = ''2.77''"
  by (simp add: fmt_fixed_def fmt_digits_def round64_111_40 round_half_even_def zero_pad_def
      str_nat.simps digit_char_def Let_def)
     code_simp

end
